theory Spec2Isabelle
  imports Main "HOL-Library.Word"
begin

unbundle bit_operations_syntax

section \<open>The WebSocket framing core of octowebsocket (\<open>_abnf.py\<close>)\<close>

text \<open>
  A shallow embedding of \<open>src/octowebsocket/_abnf.py\<close>: the masking transform, the frame
  class \<open>ABNF\<close> (\<open>validate\<close>, \<open>create_frame\<close>, \<open>format\<close>), the incremental decoder
  \<open>frame_buffer\<close> and the reassembler \<open>continuous_frame\<close>.

  Conventions.
  \<^item> Python integers are \<open>int\<close>; sizes, offsets and lengths that the code only ever
    compares and adds are \<open>nat\<close>.
  \<^item> A byte is an \<open>8 word\<close>; \<open>bytes\<close>, \<open>bytearray\<close> and \<open>memoryview\<close> values are
    byte lists. A \<open>str\<close> payload is represented by its UTF-8 bytes: \<open>create_frame\<close> and
    \<open>format\<close> encode a \<open>str\<close> to exactly these bytes before anything else looks at it.
  \<^item> Every \<open>raise\<close> is a value \<open>Inl e\<close> of the sum type \<open>error + 'a\<close>.
  \<^item> A method that mutates \<open>self\<close> returns the updated object.
\<close>

type_synonym byte = "8 word"
type_synonym bytes = "byte list"

datatype error =
    ValueError string
  | UnicodeEncodeError
  | OverflowError
  | StructError
  | TypeError
  | WebSocketProtocolException string
  | WebSocketPayloadException bytes
  | TransportError

text \<open>Python's truth value of an integer (\<open>if x:\<close>, \<open>not x\<close>, \<open>x or y\<close>).\<close>

definition truthy :: "int \<Rightarrow> bool" where
  "truthy x = (x \<noteq> 0)"

definition bind_err :: "error + 'a \<Rightarrow> ('a \<Rightarrow> error + 'b) \<Rightarrow> error + 'b" where
  "bind_err m f = (case m of Inl e \<Rightarrow> Inl e | Inr x \<Rightarrow> f x)"

definition is_protocol_error :: "error + 'a \<Rightarrow> bool" where
  "is_protocol_error r =
     (case r of Inl (WebSocketProtocolException _) \<Rightarrow> True | _ \<Rightarrow> False)"

definition is_payload_error :: "error + 'a \<Rightarrow> bool" where
  "is_payload_error r =
     (case r of Inl (WebSocketPayloadException _) \<Rightarrow> True | _ \<Rightarrow> False)"

subsection \<open>Python built-ins used by the module\<close>

text \<open>
  \<open>int.from_bytes(bs, byteorder)\<close> and \<open>x.to_bytes(n, byteorder)\<close>. \<open>sys.byteorder\<close> is
  a property of the platform, so it is a parameter of everything that masks.
\<close>

datatype byteorder = Little | Big

fun from_bytes_little :: "bytes \<Rightarrow> int" where
  "from_bytes_little [] = 0"
| "from_bytes_little (b # bs) = uint b + 256 * from_bytes_little bs"

definition int_from_bytes :: "bytes \<Rightarrow> byteorder \<Rightarrow> int" where
  "int_from_bytes bs bo =
     (case bo of Little \<Rightarrow> from_bytes_little bs | Big \<Rightarrow> from_bytes_little (rev bs))"

fun to_bytes_little :: "nat \<Rightarrow> int \<Rightarrow> bytes" where
  "to_bytes_little 0 x = []"
| "to_bytes_little (Suc n) x = word_of_int (x mod 256) # to_bytes_little n (x div 256)"

definition int_to_bytes :: "int \<Rightarrow> nat \<Rightarrow> byteorder \<Rightarrow> error + bytes" where
  "int_to_bytes x n bo =
     (if x < 0 \<or> 256 ^ n \<le> x then Inl OverflowError
      else Inr (case bo of Little \<Rightarrow> to_bytes_little n x
                         | Big \<Rightarrow> rev (to_bytes_little n x)))"

text \<open>\<open>chr(x).encode("latin-1")\<close>: one byte for a code point below 256.\<close>

definition chr_latin1 :: "int \<Rightarrow> error + bytes" where
  "chr_latin1 x =
     (if x < 0 \<or> 0x10FFFF < x then Inl (ValueError ''chr() arg not in range(0x110000)'')
      else if 255 < x then Inl UnicodeEncodeError
      else Inr [word_of_int x])"

text \<open>\<open>struct.pack("!H", x)\<close> and \<open>struct.pack("!Q", x)\<close>: network (big-endian) order.\<close>

definition pack_H :: "nat \<Rightarrow> error + bytes" where
  "pack_H x =
     (if x < 2 ^ 16 then Inr (rev (to_bytes_little 2 (int x))) else Inl StructError)"

definition pack_Q :: "nat \<Rightarrow> error + bytes" where
  "pack_Q x =
     (if x < 2 ^ 64 then Inr (rev (to_bytes_little 8 (int x))) else Inl StructError)"

text \<open>\<open>struct.unpack("!H", v)[0]\<close> and \<open>struct.unpack("!Q", v)[0]\<close>.\<close>

definition unpack_H :: "bytes \<Rightarrow> error + nat" where
  "unpack_H v = (if length v = 2 then Inr (nat (from_bytes_little (rev v))) else Inl StructError)"

definition unpack_Q :: "bytes \<Rightarrow> error + nat" where
  "unpack_Q v = (if length v = 8 then Inr (nat (from_bytes_little (rev v))) else Inl StructError)"

subsection \<open>The masker: \<open>_mask\<close> and \<open>ABNF.mask\<close>\<close>

text \<open>
  The module-level \<open>_mask\<close> (the pure-Python branch, taken when \<open>wsaccel\<close> is absent):
  both operands become one big integer each, the integers are XOR-ed, and the result is
  cut back into \<open>datalen\<close> bytes.
\<close>

definition module_mask :: "byteorder \<Rightarrow> bytes \<Rightarrow> bytes \<Rightarrow> error + bytes" where
  "module_mask native_byteorder mask_value data_value =
     (let datalen = length data_value;
          int_data_value = int_from_bytes data_value native_byteorder;
          int_mask_value = int_from_bytes
            (concat (replicate (datalen div 4) mask_value) @ take (datalen mod 4) mask_value)
            native_byteorder
      in int_to_bytes (int_data_value XOR int_mask_value) datalen native_byteorder)"

text \<open>\<open>ABNF.mask\<close> on byte arguments (the \<open>str\<close> arguments are latin-1 encoded first).\<close>

definition ABNF_mask :: "byteorder \<Rightarrow> bytes \<Rightarrow> bytes \<Rightarrow> error + bytes" where
  "ABNF_mask native_byteorder mask_key data = module_mask native_byteorder mask_key data"

text \<open>The key repeated to the length of the data, as \<open>_mask\<close> builds it.\<close>

definition key_cycle :: "bytes \<Rightarrow> nat \<Rightarrow> bytes" where
  "key_cycle k n = concat (replicate (n div 4) k) @ take (n mod 4) k"

subsection \<open>Module constants\<close>

definition STATUS_NORMAL :: int where "STATUS_NORMAL = 1000"
definition STATUS_GOING_AWAY :: int where "STATUS_GOING_AWAY = 1001"
definition STATUS_PROTOCOL_ERROR :: int where "STATUS_PROTOCOL_ERROR = 1002"
definition STATUS_UNSUPPORTED_DATA_TYPE :: int where "STATUS_UNSUPPORTED_DATA_TYPE = 1003"
definition STATUS_STATUS_NOT_AVAILABLE :: int where "STATUS_STATUS_NOT_AVAILABLE = 1005"
definition STATUS_ABNORMAL_CLOSED :: int where "STATUS_ABNORMAL_CLOSED = 1006"
definition STATUS_INVALID_PAYLOAD :: int where "STATUS_INVALID_PAYLOAD = 1007"
definition STATUS_POLICY_VIOLATION :: int where "STATUS_POLICY_VIOLATION = 1008"
definition STATUS_MESSAGE_TOO_BIG :: int where "STATUS_MESSAGE_TOO_BIG = 1009"
definition STATUS_INVALID_EXTENSION :: int where "STATUS_INVALID_EXTENSION = 1010"
definition STATUS_UNEXPECTED_CONDITION :: int where "STATUS_UNEXPECTED_CONDITION = 1011"
definition STATUS_SERVICE_RESTART :: int where "STATUS_SERVICE_RESTART = 1012"
definition STATUS_TRY_AGAIN_LATER :: int where "STATUS_TRY_AGAIN_LATER = 1013"
definition STATUS_BAD_GATEWAY :: int where "STATUS_BAD_GATEWAY = 1014"
definition STATUS_TLS_HANDSHAKE_ERROR :: int where "STATUS_TLS_HANDSHAKE_ERROR = 1015"

definition VALID_CLOSE_STATUS :: "int list" where
  "VALID_CLOSE_STATUS =
     [STATUS_NORMAL, STATUS_GOING_AWAY, STATUS_PROTOCOL_ERROR, STATUS_UNSUPPORTED_DATA_TYPE,
      STATUS_INVALID_PAYLOAD, STATUS_POLICY_VIOLATION, STATUS_MESSAGE_TOO_BIG,
      STATUS_INVALID_EXTENSION, STATUS_UNEXPECTED_CONDITION, STATUS_SERVICE_RESTART,
      STATUS_TRY_AGAIN_LATER, STATUS_BAD_GATEWAY]"

definition OPCODE_CONT :: int where "OPCODE_CONT = 0x0"
definition OPCODE_TEXT :: int where "OPCODE_TEXT = 0x1"
definition OPCODE_BINARY :: int where "OPCODE_BINARY = 0x2"
definition OPCODE_CLOSE :: int where "OPCODE_CLOSE = 0x8"
definition OPCODE_PING :: int where "OPCODE_PING = 0x9"
definition OPCODE_PONG :: int where "OPCODE_PONG = 0xA"

definition OPCODES :: "int list" where
  "OPCODES = [OPCODE_CONT, OPCODE_TEXT, OPCODE_BINARY, OPCODE_CLOSE, OPCODE_PING, OPCODE_PONG]"

definition LENGTH_7 :: nat where "LENGTH_7 = 0x7E"
definition LENGTH_16 :: nat where "LENGTH_16 = push_bit 16 1"
definition LENGTH_63 :: nat where "LENGTH_63 = push_bit 63 1"

subsection \<open>UTF-8 validation\<close>

text \<open>
  Modelled from the spec: \<open>validate_utf8\<close> is imported from \<open>_utils.py\<close>, which is not
  among the sources. The spec (section 4.5) asks for RFC 3629 precisely: no overlong
  encodings, no surrogates U+D800..U+DFFF, nothing above U+10FFFF. The function below is
  the byte syntax of RFC 3629, section 4.
\<close>

definition utf8_tail :: "byte \<Rightarrow> bool" where
  "utf8_tail b = (0x80 \<le> b \<and> b \<le> 0xBF)"

definition utf8_second3 :: "byte \<Rightarrow> byte \<Rightarrow> bool" where
  "utf8_second3 b0 b1 =
     (if b0 = 0xE0 then 0xA0 \<le> b1 \<and> b1 \<le> 0xBF
      else if b0 = 0xED then 0x80 \<le> b1 \<and> b1 \<le> 0x9F
      else utf8_tail b1)"

definition utf8_second4 :: "byte \<Rightarrow> byte \<Rightarrow> bool" where
  "utf8_second4 b0 b1 =
     (if b0 = 0xF0 then 0x90 \<le> b1 \<and> b1 \<le> 0xBF
      else if b0 = 0xF4 then 0x80 \<le> b1 \<and> b1 \<le> 0x8F
      else utf8_tail b1)"

fun validate_utf8 :: "bytes \<Rightarrow> bool" where
  "validate_utf8 [] = True"
| "validate_utf8 (b0 # bs) =
     (if b0 \<le> 0x7F then validate_utf8 bs
      else if 0xC2 \<le> b0 \<and> b0 \<le> 0xDF then
        (case bs of
           b1 # r \<Rightarrow> utf8_tail b1 \<and> validate_utf8 r
         | _ \<Rightarrow> False)
      else if 0xE0 \<le> b0 \<and> b0 \<le> 0xEF then
        (case bs of
           b1 # b2 # r \<Rightarrow> utf8_second3 b0 b1 \<and> utf8_tail b2 \<and> validate_utf8 r
         | _ \<Rightarrow> False)
      else if 0xF0 \<le> b0 \<and> b0 \<le> 0xF4 then
        (case bs of
           b1 # b2 # b3 # r \<Rightarrow>
             utf8_second4 b0 b1 \<and> utf8_tail b2 \<and> utf8_tail b3 \<and> validate_utf8 r
         | _ \<Rightarrow> False)
      else False)"

subsection \<open>The frame class \<open>ABNF\<close>\<close>

text \<open>
  The attributes of an \<open>ABNF\<close> object. \<open>data\<close> is the buffer that holds the payload;
  the payload itself is the \<open>data_msg_length_bytes\<close> bytes that start at
  \<open>data_start_offset_bytes\<close>. The attribute \<open>get_mask_key\<close> (\<open>os.urandom\<close>) is the
  source of randomness; it is a parameter of \<open>format\<close>.
\<close>

record ABNF =
  fin :: int
  rsv1 :: int
  rsv2 :: int
  rsv3 :: int
  opcode :: int
  mask_value :: int
  data :: bytes
  data_start_offset_bytes :: nat
  data_msg_length_bytes :: nat

text \<open>\<open>ABNF.__init__\<close>; \<open>None\<close> for the two optional arguments selects the defaults.\<close>

definition ABNF_init ::
  "int \<Rightarrow> int \<Rightarrow> int \<Rightarrow> int \<Rightarrow> int \<Rightarrow> int \<Rightarrow> bytes \<Rightarrow> nat option \<Rightarrow> nat option \<Rightarrow> ABNF" where
  "ABNF_init fin' rsv1' rsv2' rsv3' opcode' mask_value' data' offs len =
     \<lparr>fin = fin', rsv1 = rsv1', rsv2 = rsv2', rsv3 = rsv3', opcode = opcode',
      mask_value = mask_value', data = data',
      data_start_offset_bytes = (case offs of None \<Rightarrow> 0 | Some n \<Rightarrow> n),
      data_msg_length_bytes = (case len of None \<Rightarrow> length data' | Some n \<Rightarrow> n)\<rparr>"

definition is_valid_close_status :: "int \<Rightarrow> bool" where
  "is_valid_close_status code = (code \<in> set VALID_CLOSE_STATUS \<or> (3000 \<le> code \<and> code < 5000))"

text \<open>
  \<open>ABNF.validate\<close>. The checks run in the order of the source; the first one that fails
  raises. The second argument of \<open>WebSocketProtocolException\<close> (the offending opcode or
  close code) is not part of the model.
\<close>

definition validate :: "ABNF \<Rightarrow> bool \<Rightarrow> error + unit" where
  "validate self skip_utf8_validation' =
     (if truthy (rsv1 self) \<or> truthy (rsv2 self) \<or> truthy (rsv3 self) then
        Inl (WebSocketProtocolException ''rsv is not implemented, yet'')
      else if opcode self \<notin> set OPCODES then
        Inl (WebSocketProtocolException ''Invalid opcode %r'')
      else if opcode self = OPCODE_PING \<and> \<not> truthy (fin self) then
        Inl (WebSocketProtocolException ''Invalid ping frame.'')
      else if opcode self = OPCODE_CLOSE then
        (let l = length (data self) in
         if l = 0 then Inr ()
         else if l = 1 \<or> 126 \<le> l then
           Inl (WebSocketProtocolException ''Invalid close frame.'')
         else if 2 < l \<and> \<not> skip_utf8_validation' \<and> \<not> validate_utf8 (drop 2 (data self)) then
           Inl (WebSocketProtocolException ''Invalid close frame.'')
         else
           (let code = 256 * uint (data self ! 0) + uint (data self ! 1) in
            if is_valid_close_status code then Inr ()
            else Inl (WebSocketProtocolException ''Invalid close opcode %r'')))
      else Inr ())"

text \<open>
  \<open>ABNF.create_frame\<close> on a byte payload. (A \<open>str\<close> payload of a TEXT frame is first
  encoded to UTF-8 and must come without an offset.)
\<close>

definition create_frame ::
  "bytes \<Rightarrow> int \<Rightarrow> int \<Rightarrow> bool \<Rightarrow> nat option \<Rightarrow> nat option \<Rightarrow> ABNF" where
  "create_frame data' opcode' fin' use_frame_mask offs len =
     (let mask_value' = (if use_frame_mask then 1 else 0)
      in ABNF_init fin' 0 0 0 opcode' mask_value' data' offs len)"

text \<open>\<open>ABNF._get_masked\<close>: the key followed by the masked buffer.\<close>

definition get_masked :: "byteorder \<Rightarrow> ABNF \<Rightarrow> bytes \<Rightarrow> error + bytes" where
  "get_masked native_byteorder self mask_key =
     bind_err (ABNF_mask native_byteorder mask_key (data self)) (\<lambda>s. Inr (mask_key @ s))"

text \<open>
  \<open>ABNF.format\<close>. It returns the bytes seen through the returned \<open>memoryview\<close> and the
  object as the call leaves it (\<open>format\<close> assigns to \<open>self.data\<close>,
  \<open>self.data_start_offset_bytes\<close> and \<open>self.data_msg_length_bytes\<close>). The memoryview
  is a window onto \<open>self.data\<close>: the returned bytes are always the slice
  \<open>[data_start_offset_bytes, data_start_offset_bytes + data_msg_length_bytes)\<close> of the
  returned object's \<open>data\<close>. The slice assignment \<open>self.data[a:b] = frame_header\<close>
  needs a \<open>bytearray\<close>; Python clamps \<open>a\<close> and \<open>b\<close> to the length of the buffer, as
  \<open>take\<close> and \<open>drop\<close> do.
\<close>

definition format :: "(nat \<Rightarrow> bytes) \<Rightarrow> byteorder \<Rightarrow> ABNF \<Rightarrow> error + bytes \<times> ABNF" where
  "format get_mask_key native_byteorder self =
     (if list_ex (\<lambda>x. x \<noteq> 0 \<and> x \<noteq> 1) [fin self, rsv1 self, rsv2 self, rsv3 self] then
        Inl (ValueError ''not 0 or 1'')
      else if opcode self \<notin> set OPCODES then Inl (ValueError ''Invalid OPCODE'')
      else if LENGTH_63 \<le> data_msg_length_bytes self then Inl (ValueError ''data is too long'')
      else
        bind_err (chr_latin1 (push_bit 7 (fin self) OR push_bit 6 (rsv1 self)
                    OR push_bit 5 (rsv2 self) OR push_bit 4 (rsv3 self) OR opcode self))
        (\<lambda>byte0.
        bind_err
          (if data_msg_length_bytes self < LENGTH_7 then
             chr_latin1 (push_bit 7 (mask_value self) OR int (data_msg_length_bytes self))
           else if data_msg_length_bytes self < LENGTH_16 then
             bind_err (chr_latin1 (push_bit 7 (mask_value self) OR 0x7E)) (\<lambda>byte1.
             bind_err (pack_H (data_msg_length_bytes self)) (\<lambda>ext. Inr (byte1 @ ext)))
           else
             bind_err (chr_latin1 (push_bit 7 (mask_value self) OR 0x7F)) (\<lambda>byte1.
             bind_err (pack_Q (data_msg_length_bytes self)) (\<lambda>ext. Inr (byte1 @ ext))))
        (\<lambda>length_part.
        let frame_header = byte0 @ length_part in
        bind_err
          (if truthy (mask_value self) then
             bind_err (get_masked native_byteorder self (get_mask_key 4)) (\<lambda>d.
               Inr (self\<lparr>data := d, data_start_offset_bytes := 0,
                          data_msg_length_bytes := length d\<rparr>))
           else Inr self)
        (\<lambda>self.
        let frame_header_len = length frame_header;
            self =
              (if frame_header_len < data_start_offset_bytes self then
                 self\<lparr>data := take (data_start_offset_bytes self - frame_header_len) (data self)
                               @ frame_header @ drop (data_start_offset_bytes self) (data self),
                      data_start_offset_bytes := data_start_offset_bytes self - frame_header_len,
                      data_msg_length_bytes := data_msg_length_bytes self + frame_header_len\<rparr>
               else
                 self\<lparr>data := frame_header @ data self,
                      data_start_offset_bytes := 0,
                      data_msg_length_bytes := length (frame_header @ data self)\<rparr>)
        in Inr (take (data_msg_length_bytes self) (drop (data_start_offset_bytes self) (data self)),
                self)))))"

subsection \<open>The byte source\<close>

text \<open>
  \<open>frame_buffer\<close> reads through the callback \<open>recv_into_fn\<close>, which is handed a writable
  view and returns the number of bytes it stored at the front of it, or raises. In the
  model the callback maps its state and the size of the view to the bytes it stored (their
  number is the integer the Python callback returns) or an error, and the new state.

  Modelled from the spec: the byte source \<open>read_into(buf) -> n\<close> of section 6 (the
  transport is not among the sources): it fills up to \<open>len(buf)\<close> bytes and returns their
  number, \<open>n = 0\<close> signals end-of-stream, errors propagate up. A source is a script of
  what the transport will do: \<open>Data bs\<close> is a segment of bytes that becomes readable,
  \<open>Fail\<close> is a read that raises, and after the script the stream has ended: every read
  returns 0 bytes. \<open>calls\<close> records, for every read, the size of the view and the number
  of bytes delivered.
\<close>

datatype event = Data bytes | Fail

record source =
  events :: "event list"
  calls :: "(nat \<times> nat) list"

definition read_into :: "source \<Rightarrow> nat \<Rightarrow> (error + bytes) \<times> source" where
  "read_into src n =
     (case events src of
        [] \<Rightarrow> (Inr [], src\<lparr>calls := calls src @ [(n, 0)]\<rparr>)
      | Fail # rest \<Rightarrow> (Inl TransportError, src\<lparr>events := rest, calls := calls src @ [(n, 0)]\<rparr>)
      | Data bs # rest \<Rightarrow>
          (Inr (take n bs),
           src\<lparr>events := (if length bs \<le> n then rest else Data (drop n bs) # rest),
               calls := calls src @ [(n, min n (length bs))]\<rparr>))"

text \<open>The bytes a source delivers before its first failing read or the end of the stream.\<close>

fun avail :: "event list \<Rightarrow> bytes" where
  "avail [] = []"
| "avail (Data bs # rest) = bs @ avail rest"
| "avail (Fail # rest) = []"

text \<open>Whether the script runs into a failing read (rather than into the end of the stream).\<close>

fun hits_fail :: "event list \<Rightarrow> bool" where
  "hits_fail [] = False"
| "hits_fail (Data bs # rest) = hits_fail rest"
| "hits_fail (Fail # rest) = True"

text \<open>
  What \<open>recv_strict\<close> may ask of the source: with \<open>remaining\<close> bytes still missing, the
  view it hands over has \<open>min(131072, remaining)\<close> bytes.
\<close>

fun requests_ok :: "nat \<Rightarrow> (nat \<times> nat) list \<Rightarrow> bool" where
  "requests_ok remaining [] = True"
| "requests_ok remaining ((asked, got) # cs) =
     (asked = min 131072 remaining \<and> requests_ok (remaining - got) cs)"

subsection \<open>The decoder \<open>frame_buffer\<close>\<close>

text \<open>
  The callback stores \<open>chunk\<close> at the front of the view \<open>buffer[start : start + size]\<close>;
  the buffer keeps its length.
\<close>

definition write_view :: "bytes \<Rightarrow> nat \<Rightarrow> nat \<Rightarrow> bytes \<Rightarrow> bytes" where
  "write_view buffer start size' chunk =
     take start buffer @ take size' chunk @ drop (start + min size' (length chunk)) buffer"

text \<open>
  The \<open>while shortage > 0\<close> loop of \<open>frame_buffer.recv_strict\<close>. Nothing in the loop
  bounds the number of iterations, so the result is an \<open>option\<close>: \<open>None\<close> is a loop that
  never ends. An exception of the callback leaves the loop.
\<close>

partial_function (option) recv_loop ::
  "('s \<Rightarrow> nat \<Rightarrow> (error + bytes) \<times> 's) \<Rightarrow> nat \<Rightarrow> bytes \<Rightarrow> nat \<Rightarrow> 's
     \<Rightarrow> ((error + bytes) \<times> 's) option"
where
  "recv_loop recv_into' shortage buffer recv_so_far_bytes s =
     (if 0 < shortage then
        (let this_read_size_bytes = min 131072 shortage in
         case recv_into' s this_read_size_bytes of
           (Inl e, s') \<Rightarrow> Some (Inl e, s')
         | (Inr chunk, s') \<Rightarrow>
             (let bytes_read = length chunk in
              recv_loop recv_into' (shortage - bytes_read)
                (write_view buffer recv_so_far_bytes this_read_size_bytes chunk)
                (recv_so_far_bytes + bytes_read) s'))
      else Some (Inr buffer, s))"

definition recv_strict ::
  "('s \<Rightarrow> nat \<Rightarrow> (error + bytes) \<times> 's) \<Rightarrow> nat \<Rightarrow> 's \<Rightarrow> ((error + bytes) \<times> 's) option" where
  "recv_strict recv_into' bufsize s = recv_loop recv_into' bufsize (replicate bufsize 0) 0 s"

text \<open>
  The decoder object: the callback, the configuration and the three phase-tracking
  attributes, which survive an exception so that the next call resumes the frame.
\<close>

record 's frame_buffer =
  recv_into :: "'s \<Rightarrow> nat \<Rightarrow> (error + bytes) \<times> 's"
  skip_utf8_validation :: bool
  header :: "(int \<times> int \<times> int \<times> int \<times> int \<times> int \<times> int) option"
  length_fb :: "nat option"
  mask_value_fb :: "bytes option"

definition frame_buffer_init ::
  "('s \<Rightarrow> nat \<Rightarrow> (error + bytes) \<times> 's) \<Rightarrow> bool \<Rightarrow> 's frame_buffer" where
  "frame_buffer_init recv_into_fn skip =
     \<lparr>recv_into = recv_into_fn, skip_utf8_validation = skip,
      header = None, length_fb = None, mask_value_fb = None\<rparr>"

definition clear :: "'s frame_buffer \<Rightarrow> 's frame_buffer" where
  "clear self = self\<lparr>header := None, length_fb := None, mask_value_fb := None\<rparr>"

text \<open>
  A step of the decoder acts on the decoder object and on the state of the source, may
  raise, and may not return. \<open>bind_io\<close> sequences two steps.
\<close>

definition bind_io ::
  "((error + 'a) \<times> 'st) option \<Rightarrow> ('a \<Rightarrow> 'st \<Rightarrow> ((error + 'b) \<times> 'st) option)
     \<Rightarrow> ((error + 'b) \<times> 'st) option" where
  "bind_io m f =
     (case m of
        None \<Rightarrow> None
      | Some (Inl e, st) \<Rightarrow> Some (Inl e, st)
      | Some (Inr x, st) \<Rightarrow> f x st)"

text \<open>\<open>self.recv_strict(n)\<close> as a step.\<close>

definition recv_strict_fb ::
  "nat \<Rightarrow> 's frame_buffer \<times> 's \<Rightarrow> ((error + bytes) \<times> 's frame_buffer \<times> 's) option" where
  "recv_strict_fb bufsize st =
     (case recv_strict (recv_into (fst st)) bufsize (snd st) of
        None \<Rightarrow> None
      | Some (r, s') \<Rightarrow> Some (r, fst st, s'))"

text \<open>The three predicates are named as in the source: each is true while its part is missing.\<close>

definition has_received_header :: "'s frame_buffer \<Rightarrow> bool" where
  "has_received_header self = (header self = None)"

definition has_received_length :: "'s frame_buffer \<Rightarrow> bool" where
  "has_received_length self = (length_fb self = None)"

definition has_received_mask :: "'s frame_buffer \<Rightarrow> bool" where
  "has_received_mask self = (mask_value_fb self = None)"

definition recv_header ::
  "'s frame_buffer \<times> 's \<Rightarrow> ((error + unit) \<times> 's frame_buffer \<times> 's) option" where
  "recv_header st =
     bind_io (recv_strict_fb 2 st) (\<lambda>header_buffer (self, s).
       let b1 = uint (header_buffer ! 0);
           fin' = drop_bit 7 b1 AND 1;
           rsv1' = drop_bit 6 b1 AND 1;
           rsv2' = drop_bit 5 b1 AND 1;
           rsv3' = drop_bit 4 b1 AND 1;
           opcode' = b1 AND 0xF;
           b2 = uint (header_buffer ! 1);
           has_mask' = drop_bit 7 b2 AND 1;
           length_bits = b2 AND 0x7F
       in Some (Inr (),
                self\<lparr>header := Some (fin', rsv1', rsv2', rsv3', opcode', has_mask', length_bits)\<rparr>,
                s))"

definition has_mask :: "'s frame_buffer \<Rightarrow> int" where
  "has_mask self =
     (case header self of
        None \<Rightarrow> 0
      | Some (_, _, _, _, _, header_val, _) \<Rightarrow> header_val)"

definition recv_length ::
  "'s frame_buffer \<times> 's \<Rightarrow> ((error + unit) \<times> 's frame_buffer \<times> 's) option" where
  "recv_length st =
     (case header (fst st) of
        None \<Rightarrow> Some (Inl TypeError, st)
      | Some (_, _, _, _, _, _, bits) \<Rightarrow>
          (let length_bits = bits AND 0x7F in
           if length_bits = 0x7E then
             bind_io (recv_strict_fb 2 st) (\<lambda>v (self, s).
               case unpack_H v of
                 Inl e \<Rightarrow> Some (Inl e, self, s)
               | Inr n \<Rightarrow> Some (Inr (), self\<lparr>length_fb := Some n\<rparr>, s))
           else if length_bits = 0x7F then
             bind_io (recv_strict_fb 8 st) (\<lambda>v (self, s).
               case unpack_Q v of
                 Inl e \<Rightarrow> Some (Inl e, self, s)
               | Inr n \<Rightarrow> Some (Inr (), self\<lparr>length_fb := Some n\<rparr>, s))
           else Some (Inr (), (fst st)\<lparr>length_fb := Some (nat length_bits)\<rparr>, snd st)))"

definition recv_mask ::
  "'s frame_buffer \<times> 's \<Rightarrow> ((error + unit) \<times> 's frame_buffer \<times> 's) option" where
  "recv_mask st =
     (if truthy (has_mask (fst st)) then
        bind_io (recv_strict_fb 4 st) (\<lambda>v (self, s).
          Some (Inr (), self\<lparr>mask_value_fb := Some v\<rparr>, s))
      else Some (Inr (), (fst st)\<lparr>mask_value_fb := Some []\<rparr>, snd st))"

text \<open>
  \<open>frame_buffer.recv_frame\<close>. The lock only serialises callers and has no counterpart
  here. Reading an attribute that is still \<open>None\<close> where the code needs a value is a
  \<open>TypeError\<close>.
\<close>

definition recv_frame ::
  "byteorder \<Rightarrow> 's frame_buffer \<times> 's \<Rightarrow> ((error + ABNF) \<times> 's frame_buffer \<times> 's) option" where
  "recv_frame native_byteorder st =
     bind_io (if has_received_header (fst st) then recv_header st else Some (Inr (), st))
     (\<lambda>_ st.
     case header (fst st) of
       None \<Rightarrow> Some (Inl TypeError, st)
     | Some (fin', rsv1', rsv2', rsv3', opcode', has_mask', _) \<Rightarrow>
     bind_io (if has_received_length (fst st) then recv_length st else Some (Inr (), st))
     (\<lambda>_ st.
     case length_fb (fst st) of
       None \<Rightarrow> Some (Inl TypeError, st)
     | Some length' \<Rightarrow>
     bind_io (if has_received_mask (fst st) then recv_mask st else Some (Inr (), st))
     (\<lambda>_ st.
     bind_io (recv_strict_fb length' st)
     (\<lambda>payload (self, s).
     case (if truthy has_mask' then
             (case mask_value_fb self of
                None \<Rightarrow> Inl TypeError
              | Some mask_value' \<Rightarrow> ABNF_mask native_byteorder mask_value' payload)
           else Inr payload) of
       Inl e \<Rightarrow> Some (Inl e, self, s)
     | Inr payload \<Rightarrow>
         (let self = clear self;
              frame = ABNF_init fin' rsv1' rsv2' rsv3' opcode' has_mask' payload None None
          in case validate frame (skip_utf8_validation self) of
               Inl e \<Rightarrow> Some (Inl e, self, s)
             | Inr _ \<Rightarrow> Some (Inr frame, self, s))))))"

subsection \<open>The reassembler \<open>continuous_frame\<close>\<close>

record continuous_frame =
  fire_cont_frame :: bool
  skip_utf8_validation_cf :: bool
  cont_data :: "(int \<times> bytes) option"
  recving_frames :: "int option"

definition continuous_frame_init :: "bool \<Rightarrow> bool \<Rightarrow> continuous_frame" where
  "continuous_frame_init fire skip =
     \<lparr>fire_cont_frame = fire, skip_utf8_validation_cf = skip,
      cont_data = None, recving_frames = None\<rparr>"

definition is_building :: "continuous_frame \<Rightarrow> bool" where
  "is_building self = (cont_data self \<noteq> None)"

text \<open>The truth value of \<open>self.recving_frames\<close>: \<open>None\<close> and 0 are false.\<close>

definition recving :: "continuous_frame \<Rightarrow> bool" where
  "recving self = (case recving_frames self of None \<Rightarrow> False | Some op \<Rightarrow> truthy op)"

definition validate_cf :: "continuous_frame \<Rightarrow> ABNF \<Rightarrow> error + unit" where
  "validate_cf self frame =
     (if \<not> recving self \<and> opcode frame = OPCODE_CONT then
        Inl (WebSocketProtocolException ''Illegal frame'')
      else if recving self \<and> opcode frame \<in> set [OPCODE_TEXT, OPCODE_BINARY] then
        Inl (WebSocketProtocolException ''Illegal frame'')
      else Inr ())"

definition add_cf :: "continuous_frame \<Rightarrow> ABNF \<Rightarrow> continuous_frame" where
  "add_cf self frame =
     (let self =
        (case cont_data self of
           Some (op, d) \<Rightarrow> self\<lparr>cont_data := Some (op, d @ data frame)\<rparr>
         | None \<Rightarrow>
             (let self = (if opcode frame \<in> set [OPCODE_TEXT, OPCODE_BINARY]
                          then self\<lparr>recving_frames := Some (opcode frame)\<rparr> else self)
              in self\<lparr>cont_data := Some (opcode frame, data frame)\<rparr>))
      in if truthy (fin frame) then self\<lparr>recving_frames := None\<rparr> else self)"

definition is_fire :: "continuous_frame \<Rightarrow> ABNF \<Rightarrow> bool" where
  "is_fire self frame = (truthy (fin frame) \<or> fire_cont_frame self)"

text \<open>
  \<open>continuous_frame.extract\<close> returns the opcode of the message and the frame it was
  called with, whose \<open>data\<close> is now the accumulated payload. The payload exception
  carries the bytes that its message prints.
\<close>

definition extract_cf :: "continuous_frame \<Rightarrow> ABNF \<Rightarrow> (error + int \<times> ABNF) \<times> continuous_frame" where
  "extract_cf self frame =
     (case cont_data self of
        None \<Rightarrow> (Inl TypeError, self)
      | Some (op, d) \<Rightarrow>
          (let self = self\<lparr>cont_data := None\<rparr>;
               frame = frame\<lparr>data := d\<rparr>
           in if \<not> fire_cont_frame self \<and> op = OPCODE_TEXT
                 \<and> \<not> skip_utf8_validation_cf self \<and> \<not> validate_utf8 (data frame)
              then (Inl (WebSocketPayloadException (data frame)), self)
              else (Inr (op, frame), self)))"

text \<open>
  Modelled from the spec: the per-frame operation \<open>process(frame)\<close> of section 4.4. Its
  code (the caller of \<open>validate\<close>, \<open>add\<close>, \<open>is_fire\<close> and \<open>extract\<close>) is not among the
  sources. A data frame (CONT, TEXT, BINARY) is checked against the fragmentation state,
  added, and the message is extracted when it fires; a control frame (CLOSE, PING, PONG)
  is emitted immediately and the state is not touched. The spec knows no other opcode;
  for one, nothing is emitted.
\<close>

definition process ::
  "continuous_frame \<Rightarrow> ABNF \<Rightarrow> (error + (int \<times> ABNF) option) \<times> continuous_frame" where
  "process self frame =
     (if opcode frame \<in> set [OPCODE_TEXT, OPCODE_BINARY, OPCODE_CONT] then
        (case validate_cf self frame of
           Inl e \<Rightarrow> (Inl e, self)
         | Inr _ \<Rightarrow>
             (let self = add_cf self frame in
              if is_fire self frame then
                (case extract_cf self frame of
                   (Inl e, self) \<Rightarrow> (Inl e, self)
                 | (Inr msg, self) \<Rightarrow> (Inr (Some msg), self))
              else (Inr None, self)))
      else if opcode frame \<in> set [OPCODE_CLOSE, OPCODE_PING, OPCODE_PONG] then
        (Inr (Some (opcode frame, frame)), self)
      else (Inr None, self))"

text \<open>
  Processing a sequence of frames: the outputs, one per frame, up to the first error.
\<close>

fun process_all ::
  "continuous_frame \<Rightarrow> ABNF list \<Rightarrow> (error + (int \<times> ABNF) option list) \<times> continuous_frame" where
  "process_all self [] = (Inr [], self)"
| "process_all self (frame # frames) =
     (case process self frame of
        (Inl e, self) \<Rightarrow> (Inl e, self)
      | (Inr out, self) \<Rightarrow>
          (case process_all self frames of
             (Inl e, self) \<Rightarrow> (Inl e, self)
           | (Inr outs, self) \<Rightarrow> (Inr (out # outs), self)))"

subsection \<open>Vocabulary of the properties\<close>

text \<open>
  The frame that the constructor builds from a header and a payload, without a mask bit
  and with the default offset and length; \<open>recv_frame\<close> builds its frames this way.
\<close>

definition received_frame :: "int \<Rightarrow> int \<Rightarrow> bytes \<Rightarrow> ABNF" where
  "received_frame opcode' fin' payload = ABNF_init fin' 0 0 0 opcode' 0 payload None None"

text \<open>
  The set of valid close codes as the spec writes it (section 3), to be compared with
  \<open>is_valid_close_status\<close>, and the big-endian status code at the start of a close payload.
\<close>

definition valid_close_codes_spec :: "int set" where
  "valid_close_codes_spec =
     {1000, 1001, 1002, 1003, 1007, 1008, 1009, 1010, 1011, 1012, 1013, 1014} \<union> {3000..<5000}"

definition close_code :: "ABNF \<Rightarrow> int" where
  "close_code f = 256 * uint (data f ! 0) + uint (data f ! 1)"

text \<open>Control frames, continuation fragments, and the two states of the reassembler.\<close>

definition is_control :: "ABNF \<Rightarrow> bool" where
  "is_control f = (opcode f \<in> set [OPCODE_CLOSE, OPCODE_PING, OPCODE_PONG])"

definition is_cont_fragment :: "ABNF \<Rightarrow> bool" where
  "is_cont_fragment f = (opcode f = OPCODE_CONT \<and> fin f = 0)"

definition idle :: "continuous_frame \<Rightarrow> bool" where
  "idle self = (cont_data self = None \<and> recving_frames self = None)"

definition building :: "continuous_frame \<Rightarrow> int \<Rightarrow> bytes \<Rightarrow> bool" where
  "building self op acc =
     (op \<in> set [OPCODE_TEXT, OPCODE_BINARY] \<and> cont_data self = Some (op, acc)
      \<and> recving_frames self = Some op)"

text \<open>
  The payloads of the data frames of a sequence, concatenated, and what a frame in the
  middle of a fragmented message makes \<open>process\<close> emit.
\<close>

definition fragments_payload :: "ABNF list \<Rightarrow> bytes" where
  "fragments_payload frames = concat (map data (filter (\<lambda>f. \<not> is_control f) frames))"

definition control_output :: "ABNF \<Rightarrow> (int \<times> ABNF) option" where
  "control_output f = (if is_control f then Some (opcode f, f) else None)"

text \<open>
  The header as the spec lays it out (section 4.2), to be compared with the header that
  \<open>format\<close> builds: byte 0 is \<open>fin<<7 | rsv1<<6 | rsv2<<5 | rsv3<<4 | opcode\<close>, byte 1 is
  \<open>mask_bit<<7 | length_field\<close>, and the length field is \<open>L\<close>, or 126 followed by the
  2-byte big-endian \<open>L\<close>, or 127 followed by the 8-byte big-endian \<open>L\<close>.
\<close>

definition big_endian :: "nat \<Rightarrow> nat \<Rightarrow> bytes" where
  "big_endian n x = map (\<lambda>i. of_nat (x div 256 ^ (n - 1 - i) mod 256)) [0..<n]"

definition header_spec :: "ABNF \<Rightarrow> bytes" where
  "header_spec f =
     (let L = data_msg_length_bytes f in
      [word_of_int (push_bit 7 (fin f) OR push_bit 6 (rsv1 f) OR push_bit 5 (rsv2 f)
                    OR push_bit 4 (rsv3 f) OR opcode f)] @
      (if L < 126 then [word_of_int (push_bit 7 (mask_value f) OR int L)]
       else if L < 2 ^ 16 then [word_of_int (push_bit 7 (mask_value f) OR 126)] @ big_endian 2 L
       else [word_of_int (push_bit 7 (mask_value f) OR 127)] @ big_endian 8 L))"

text \<open>The header fields that \<open>format\<close> accepts and can encode in two bytes.\<close>

definition header_fields_ok :: "ABNF \<Rightarrow> bool" where
  "header_fields_ok f =
     (fin f \<in> {0, 1} \<and> rsv1 f \<in> {0, 1} \<and> rsv2 f \<in> {0, 1} \<and> rsv3 f \<in> {0, 1}
      \<and> opcode f \<in> set OPCODES \<and> mask_value f \<in> {0, 1})"

text \<open>
  The two halves of the second part of \<open>format\<close>, named so that they can be reasoned
  about one at a time: masking the buffer, and placing the header in front of it.
\<close>

definition after_mask :: "(nat \<Rightarrow> bytes) \<Rightarrow> byteorder \<Rightarrow> ABNF \<Rightarrow> error + ABNF" where
  "after_mask get_mask_key native_byteorder self =
     (if truthy (mask_value self) then
             bind_err (get_masked native_byteorder self (get_mask_key 4)) (\<lambda>d.
               Inr (self\<lparr>data := d, data_start_offset_bytes := 0,
                          data_msg_length_bytes := length d\<rparr>))
           else Inr self)"

definition place_header :: "bytes \<Rightarrow> ABNF \<Rightarrow> bytes \<times> ABNF" where
  "place_header frame_header self =
     (let frame_header_len = length frame_header;
            self =
              (if frame_header_len < data_start_offset_bytes self then
                 self\<lparr>data := take (data_start_offset_bytes self - frame_header_len) (data self)
                               @ frame_header @ drop (data_start_offset_bytes self) (data self),
                      data_start_offset_bytes := data_start_offset_bytes self - frame_header_len,
                      data_msg_length_bytes := data_msg_length_bytes self + frame_header_len\<rparr>
               else
                 self\<lparr>data := frame_header @ data self,
                      data_start_offset_bytes := 0,
                      data_msg_length_bytes := length (frame_header @ data self)\<rparr>)
        in (take (data_msg_length_bytes self) (drop (data_start_offset_bytes self) (data self)),
                self))"

text \<open>Two sources of mask keys: the key of the example in RFC 6455, and the zero key.\<close>

definition rfc_key :: "nat \<Rightarrow> bytes" where
  "rfc_key n = take n [0x37, 0xfa, 0x21, 0x3d]"

definition zero_key :: "nat \<Rightarrow> bytes" where
  "zero_key n = replicate n 0"

section \<open>Properties of the masker\<close>

lemma from_bytes_little_nonneg: "0 \<le> from_bytes_little bs"
  by (induction bs) auto

lemma from_bytes_little_bound: "from_bytes_little bs < 256 ^ length bs"
proof (induction bs)
  case Nil
  show ?case by simp
next
  case (Cons b bs)
  have "uint b < 256" using uint_bounded [of b] by simp
  with Cons show ?case by simp
qed

lemma to_from_bytes_little: "to_bytes_little (length bs) (from_bytes_little bs) = bs"
proof (induction bs)
  case Nil
  show ?case by simp
next
  case (Cons b bs)
  have b: "uint b < 256" "0 \<le> uint b" using uint_bounded [of b] by simp_all
  then have "(uint b + 256 * from_bytes_little bs) mod 256 = uint b"
    by simp
  moreover from b have "(uint b + 256 * from_bytes_little bs) div 256 = from_bytes_little bs"
    by simp
  ultimately show ?case using Cons by simp
qed

lemma from_bytes_little_concat_bit:
  "from_bytes_little (b # bs) = concat_bit 8 (uint b) (from_bytes_little bs)"
proof -
  have "take_bit 8 (uint b) = uint b"
    using uint_bounded [of b] by (simp add: take_bit_int_eq_self)
  then show ?thesis
    by (simp add: concat_bit_eq push_bit_eq_mult)
qed

lemma concat_bit_xor:
  "concat_bit n k l XOR concat_bit n k' l' = concat_bit n (k XOR k') (l XOR l')"
  by (rule bit_eqI) (auto simp: bit_concat_bit_iff bit_xor_iff)

lemma from_bytes_little_xor:
  "length xs = length ys \<Longrightarrow>
   from_bytes_little xs XOR from_bytes_little ys = from_bytes_little (map2 (XOR) xs ys)"
proof (induction xs ys rule: list_induct2)
  case Nil
  show ?case by simp
next
  case (Cons x xs y ys)
  have "uint x XOR uint y = uint (x XOR y)"
    by (simp add: uint_xor)
  with Cons show ?case
    by (simp only: from_bytes_little_concat_bit concat_bit_xor list.map zip_Cons_Cons prod.case)
qed

lemma length_concat_replicate: "length (concat (replicate m k)) = m * length k"
  by (induction m) auto

lemma nth_concat_replicate:
  "length k = 4 \<Longrightarrow> i < 4 * m \<Longrightarrow> concat (replicate m k) ! i = k ! (i mod 4)"
proof (induction m arbitrary: i)
  case 0
  then show ?case by simp
next
  case (Suc m)
  show ?case
  proof (cases "i < 4")
    case True
    with Suc.prems show ?thesis by (simp add: nth_append)
  next
    case False
    then have "i - 4 < 4 * m" "(i - 4) mod 4 = i mod 4"
      using Suc.prems by (simp_all add: le_mod_geq)
    with False Suc.IH [of "i - 4"] Suc.prems show ?thesis
      by (simp add: nth_append)
  qed
qed

lemma length_key_cycle: "length k = 4 \<Longrightarrow> length (key_cycle k n) = n"
proof -
  assume "length k = 4"
  moreover have "n div 4 * 4 + n mod 4 = n" by simp
  ultimately show ?thesis
    by (simp add: key_cycle_def length_concat_replicate)
qed

lemma nth_key_cycle:
  assumes "length k = 4" "i < n"
  shows "key_cycle k n ! i = k ! (i mod 4)"
proof (cases "i < 4 * (n div 4)")
  case True
  with assms show ?thesis
    by (simp add: key_cycle_def nth_append length_concat_replicate nth_concat_replicate mult.commute)
next
  case False
  have "n < 4 * Suc (n div 4)"
  proof -
    have "n mod 4 < 4" by simp
    moreover have "4 * (n div 4) + n mod 4 = n" by simp
    ultimately show ?thesis by simp
  qed
  with False assms(2) have d: "i div 4 = n div 4"
    by (intro div_nat_eqI) simp_all
  have i: "i - 4 * (n div 4) = i mod 4"
    using minus_mult_div_eq_mod [of i 4] d by simp
  have "n - 4 * (n div 4) = n mod 4"
    by (rule minus_mult_div_eq_mod)
  with i False assms(2) have "i mod 4 < n mod 4"
    by linarith
  note i this
  with False assms show ?thesis
    by (simp add: key_cycle_def nth_append length_concat_replicate mult.commute)
qed

lemma map2_xor_key_cycle:
  assumes "length k = 4"
  shows "map2 (XOR) P (key_cycle k (length P)) = map (\<lambda>i. P ! i XOR k ! (i mod 4)) [0..<length P]"
  by (rule nth_equalityI) (simp_all add: assms length_key_cycle nth_key_cycle)

lemma module_mask_eq:
  assumes "length k = 4"
  shows "module_mask bo k P = Inr (map (\<lambda>i. P ! i XOR k ! (i mod 4)) [0..<length P])"
proof -
  let ?K = "key_cycle k (length P)"
  let ?Q = "map2 (XOR) P ?K"
  have len: "length ?K = length P" using assms by (rule length_key_cycle)
  have lenQ: "length ?Q = length P" using len by simp
  have little: "from_bytes_little P XOR from_bytes_little ?K = from_bytes_little ?Q"
    using len by (simp add: from_bytes_little_xor)
  have big: "from_bytes_little (rev P) XOR from_bytes_little (rev ?K) = from_bytes_little (rev ?Q)"
    using len by (simp add: from_bytes_little_xor zip_rev rev_map)
  have rng: "\<And>zs. \<not> (from_bytes_little zs < 0 \<or> 256 ^ length zs \<le> from_bytes_little zs)"
    by (simp add: not_le not_less from_bytes_little_nonneg from_bytes_little_bound)
  have "module_mask bo k P = Inr ?Q"
  proof (cases bo)
    case Little
    have "int_to_bytes (from_bytes_little ?Q) (length P) Little = Inr ?Q"
      using rng [of ?Q] to_from_bytes_little [of ?Q] lenQ
      by (simp add: int_to_bytes_def)
    with Little little show ?thesis
      by (simp add: module_mask_def int_from_bytes_def key_cycle_def Let_def)
  next
    case Big
    have "int_to_bytes (from_bytes_little (rev ?Q)) (length P) Big = Inr ?Q"
      using rng [of "rev ?Q"] to_from_bytes_little [of "rev ?Q"] lenQ
      by (simp add: int_to_bytes_def)
    with Big big show ?thesis
      by (simp add: module_mask_def int_from_bytes_def key_cycle_def Let_def)
  qed
  then show ?thesis using assms by (simp add: map2_xor_key_cycle)
qed

subsection \<open>The masking transform is an involution\<close>

text \<open>
  Claim C9. For every 4-byte mask key \<open>k\<close> and every byte sequence \<open>P\<close> (the empty one
  included), masking yields the bytes \<open>P[i] XOR k[i mod 4]\<close>, and masking the result
  again with the same key gives \<open>P\<close> back. This holds on little-endian and on
  big-endian platforms.
\<close>

theorem mask_involution:
  assumes "length k = 4"
  shows "ABNF_mask bo k P = Inr (map (\<lambda>i. P ! i XOR k ! (i mod 4)) [0..<length P]) \<and>
         bind_err (ABNF_mask bo k P) (ABNF_mask bo k) = Inr P"
proof -
  let ?Q = "map (\<lambda>i. P ! i XOR k ! (i mod 4)) [0..<length P]"
  have 1: "ABNF_mask bo k P = Inr ?Q"
    using assms by (simp add: ABNF_mask_def module_mask_eq)
  have "map (\<lambda>i. ?Q ! i XOR k ! (i mod 4)) [0..<length ?Q] = P"
    by (rule nth_equalityI) (simp_all add: xor.assoc)
  then have 2: "ABNF_mask bo k ?Q = Inr P"
    using assms by (simp add: ABNF_mask_def module_mask_eq del: length_map map_map)
  from 1 2 show ?thesis by (simp add: bind_err_def)
qed

theorem mask_involution_witness:
  "length [0x37, 0xfa, 0x21, 0x3d :: byte] = 4 \<and>
   ABNF_mask Little [0x37, 0xfa, 0x21, 0x3d] [0x48, 0x65, 0x6c, 0x6c, 0x6f]
     = Inr [0x7f, 0x9f, 0x4d, 0x51, 0x58] \<and>
   bind_err (ABNF_mask Little [0x37, 0xfa, 0x21, 0x3d] [0x48, 0x65, 0x6c, 0x6c, 0x6f])
     (ABNF_mask Little [0x37, 0xfa, 0x21, 0x3d]) = Inr [0x48, 0x65, 0x6c, 0x6c, 0x6f]"
proof -
  have len: "length [0x37, 0xfa, 0x21, 0x3d :: byte] = 4" by simp
  note m = mask_involution [OF len, of Little "[0x48, 0x65, 0x6c, 0x6c, 0x6f]"]
  from m [THEN conjunct1]
  have "ABNF_mask Little [0x37, 0xfa, 0x21, 0x3d] [0x48, 0x65, 0x6c, 0x6c, 0x6f]
          = Inr [0x7f, 0x9f, 0x4d, 0x51, 0x58]"
    by (simp add: upt_rec)
  with len m [THEN conjunct2] show ?thesis by blast
qed

section \<open>Validation of close frames\<close>

lemmas status_defs =
  STATUS_NORMAL_def STATUS_GOING_AWAY_def STATUS_PROTOCOL_ERROR_def
  STATUS_UNSUPPORTED_DATA_TYPE_def STATUS_INVALID_PAYLOAD_def STATUS_POLICY_VIOLATION_def
  STATUS_MESSAGE_TOO_BIG_def STATUS_INVALID_EXTENSION_def STATUS_UNEXPECTED_CONDITION_def
  STATUS_SERVICE_RESTART_def STATUS_TRY_AGAIN_LATER_def STATUS_BAD_GATEWAY_def

lemmas opcode_defs =
  OPCODES_def OPCODE_CONT_def OPCODE_TEXT_def OPCODE_BINARY_def OPCODE_CLOSE_def
  OPCODE_PING_def OPCODE_PONG_def

lemma is_valid_close_status_iff: "is_valid_close_status c \<longleftrightarrow> c \<in> valid_close_codes_spec"
  by (auto simp: is_valid_close_status_def VALID_CLOSE_STATUS_def status_defs
        valid_close_codes_spec_def)

lemma validate_close_unfold:
  assumes "opcode f = OPCODE_CLOSE" "rsv1 f = 0" "rsv2 f = 0" "rsv3 f = 0"
  shows "validate f skip =
     (let l = length (data f) in
         if l = 0 then Inr ()
         else if l = 1 \<or> 126 \<le> l then
           Inl (WebSocketProtocolException ''Invalid close frame.'')
         else if 2 < l \<and> \<not> skip \<and> \<not> validate_utf8 (drop 2 (data f)) then
           Inl (WebSocketProtocolException ''Invalid close frame.'')
         else if is_valid_close_status (close_code f) then Inr ()
            else Inl (WebSocketProtocolException ''Invalid close opcode %r''))"
  using assms by (simp add: validate_def truthy_def opcode_defs close_code_def Let_def)

text \<open>
  Claim C4, amended. For a CLOSE frame whose reserved bits are zero: validation succeeds
  on an empty payload; a payload of exactly 1 byte is a protocol error; a payload of 126
  bytes or more is a protocol error whatever it holds; and for a payload of 2 to 125 bytes
  whose reason (the bytes after the first two) is valid UTF-8, validation succeeds if and
  only if the big-endian status code of the first two bytes is in
  \<open>{1000, 1001, 1002, 1003, 1007, ..., 1014} \<union> [3000, 5000)\<close>, and is a protocol error
  otherwise; so 1004, 1005, 1006 and 1015 are rejected.
\<close>

theorem validate_close:
  assumes "opcode f = OPCODE_CLOSE" "rsv1 f = 0" "rsv2 f = 0" "rsv3 f = 0"
  shows "(data f = [] \<longrightarrow> validate f skip = Inr ()) \<and>
         (length (data f) = 1 \<longrightarrow> is_protocol_error (validate f skip)) \<and>
         (126 \<le> length (data f) \<longrightarrow> is_protocol_error (validate f skip)) \<and>
         (2 \<le> length (data f) \<and> length (data f) \<le> 125 \<and> validate_utf8 (drop 2 (data f)) \<longrightarrow>
            (validate f skip = Inr () \<longleftrightarrow> close_code f \<in> valid_close_codes_spec) \<and>
            (close_code f \<notin> valid_close_codes_spec \<longrightarrow> is_protocol_error (validate f skip)))"
  unfolding validate_close_unfold [OF assms]
  by (auto simp: Let_def is_protocol_error_def is_valid_close_status_iff)

lemma validate_utf8_ascii: "validate_utf8 (replicate n 0x41)"
  by (induction n) simp_all

text \<open>
  The theorem at concrete close frames: an empty payload, a 1-byte payload, code 1000 with
  and without a reason, the reserved codes 1004, 1005, 1006 and 1015, and a 126-byte
  payload.
\<close>

theorem validate_close_witness:
  "validate (received_frame OPCODE_CLOSE 1 []) False = Inr () \<and>
   is_protocol_error (validate (received_frame OPCODE_CLOSE 1 [0x03]) False) \<and>
   validate (received_frame OPCODE_CLOSE 1 [0x03, 0xE8]) False = Inr () \<and>
   validate (received_frame OPCODE_CLOSE 1 [0x03, 0xE8, 0x62, 0x79, 0x65]) False = Inr () \<and>
   is_protocol_error (validate (received_frame OPCODE_CLOSE 1 [0x03, 0xEC]) False) \<and>
   is_protocol_error (validate (received_frame OPCODE_CLOSE 1 [0x03, 0xED]) False) \<and>
   is_protocol_error (validate (received_frame OPCODE_CLOSE 1 [0x03, 0xEE]) False) \<and>
   is_protocol_error (validate (received_frame OPCODE_CLOSE 1 [0x03, 0xF7]) False) \<and>
   is_protocol_error (validate (received_frame OPCODE_CLOSE 1 ([0x03, 0xE8] @ replicate 124 0x41)) False)"
proof -
  have c: "\<And>p. opcode (received_frame OPCODE_CLOSE 1 p) = OPCODE_CLOSE" "\<And>p. rsv1 (received_frame OPCODE_CLOSE 1 p) = 0"
    "\<And>p. rsv2 (received_frame OPCODE_CLOSE 1 p) = 0" "\<And>p. rsv3 (received_frame OPCODE_CLOSE 1 p) = 0"
    "\<And>p. data (received_frame OPCODE_CLOSE 1 p) = p"
    by (simp_all add: received_frame_def ABNF_init_def)
  note v = validate_close [OF c(1-4), unfolded c(5)]
  show ?thesis
    using v [of "[]" False] v [of "[0x03]" False] v [of "[0x03, 0xE8]" False]
      v [of "[0x03, 0xE8, 0x62, 0x79, 0x65]" False] v [of "[0x03, 0xEC]" False]
      v [of "[0x03, 0xED]" False] v [of "[0x03, 0xEE]" False] v [of "[0x03, 0xF7]" False]
      v [of "[0x03, 0xE8] @ replicate 124 0x41" False]
    by (simp add: close_code_def c valid_close_codes_spec_def)
qed

text \<open>
  Claim C4 as stated fails on a close payload of 126 bytes: the code is 1000 and the
  reason is 124 letters \<open>A\<close>, yet validation raises.
\<close>

theorem close_126_bytes_rejected:
  "2 \<le> length (data (received_frame OPCODE_CLOSE 1 ([0x03, 0xE8] @ replicate 124 0x41))) \<and>
   validate_utf8 (drop 2 (data (received_frame OPCODE_CLOSE 1 ([0x03, 0xE8] @ replicate 124 0x41)))) \<and>
   close_code (received_frame OPCODE_CLOSE 1 ([0x03, 0xE8] @ replicate 124 0x41)) = 1000 \<and>
   validate (received_frame OPCODE_CLOSE 1 ([0x03, 0xE8] @ replicate 124 0x41)) False
     = Inl (WebSocketProtocolException ''Invalid close frame.'')"
  by (simp add: received_frame_def ABNF_init_def close_code_def validate_def truthy_def
        opcode_defs validate_utf8_ascii)

section \<open>The reassembler\<close>

lemma process_control:
  "is_control f \<Longrightarrow> process self f = (Inr (Some (opcode f, f)), self)"
  by (auto simp: process_def is_control_def opcode_defs)

lemma process_idle_cont:
  assumes "idle self" "opcode f = OPCODE_CONT"
  shows "process self f = (Inl (WebSocketProtocolException ''Illegal frame''), self)"
  using assms by (simp add: process_def validate_cf_def recving_def idle_def)

lemma process_building_data:
  assumes "building self op acc" "opcode f \<in> set [OPCODE_TEXT, OPCODE_BINARY]"
  shows "process self f = (Inl (WebSocketProtocolException ''Illegal frame''), self)"
  using assms
  by (auto simp: process_def validate_cf_def recving_def building_def truthy_def opcode_defs)

lemma process_first_fragment:
  assumes "idle self" "\<not> fire_cont_frame self" "opcode f = OPCODE_TEXT" "fin f = 0"
  shows "process self f =
           (Inr None, self\<lparr>cont_data := Some (OPCODE_TEXT, data f),
                          recving_frames := Some OPCODE_TEXT\<rparr>)"
  using assms
  by (simp add: process_def validate_cf_def recving_def idle_def add_cf_def is_fire_def
        truthy_def opcode_defs)

lemma process_cont_fragment:
  assumes "building self op acc" "\<not> fire_cont_frame self" "is_cont_fragment f"
  shows "process self f = (Inr None, self\<lparr>cont_data := Some (op, acc @ data f)\<rparr>)"
  using assms
  by (auto simp: process_def validate_cf_def recving_def building_def add_cf_def is_fire_def
        truthy_def opcode_defs is_cont_fragment_def)

lemma process_last_fragment:
  assumes "building self op acc" "\<not> fire_cont_frame self" "opcode f = OPCODE_CONT" "fin f = 1"
  shows "process self f =
     (if op = OPCODE_TEXT \<and> \<not> skip_utf8_validation_cf self \<and> \<not> validate_utf8 (acc @ data f)
      then (Inl (WebSocketPayloadException (acc @ data f)),
            self\<lparr>cont_data := None, recving_frames := None\<rparr>)
      else (Inr (Some (op, f\<lparr>data := acc @ data f\<rparr>)),
            self\<lparr>cont_data := None, recving_frames := None\<rparr>))"
  using assms
  by (auto simp: process_def validate_cf_def recving_def building_def add_cf_def is_fire_def
        truthy_def opcode_defs extract_cf_def)

lemma process_all_append:
  "process_all self (xs @ ys) =
     (case process_all self xs of
        (Inl e, self') \<Rightarrow> (Inl e, self')
      | (Inr outs, self') \<Rightarrow>
          (case process_all self' ys of
             (Inl e, self'') \<Rightarrow> (Inl e, self'')
           | (Inr outs', self'') \<Rightarrow> (Inr (outs @ outs'), self'')))"
  by (induction xs arbitrary: self) (auto split: prod.splits sum.splits)

lemma not_control_cont_fragment: "is_cont_fragment f \<Longrightarrow> \<not> is_control f"
  by (simp add: is_cont_fragment_def is_control_def opcode_defs)

lemma process_all_middle:
  assumes "building self op acc" "\<not> fire_cont_frame self"
    and "list_all (\<lambda>f. is_control f \<or> is_cont_fragment f) mid"
  shows "process_all self mid =
           (Inr (map control_output mid),
            self\<lparr>cont_data := Some (op, acc @ fragments_payload mid)\<rparr>)"
  using assms
proof (induction mid arbitrary: self acc)
  case Nil
  then show ?case by (simp add: fragments_payload_def building_def)
next
  case (Cons f mid)
  show ?case
  proof (cases "is_control f")
    case True
    with Cons.prems Cons.IH [of self acc] show ?thesis
      by (simp add: process_control control_output_def fragments_payload_def)
  next
    case False
    with Cons.prems have frag: "is_cont_fragment f" by simp
    let ?self = "self\<lparr>cont_data := Some (op, acc @ data f)\<rparr>"
    have b: "building ?self op (acc @ data f)" "\<not> fire_cont_frame ?self"
      using Cons.prems by (simp_all add: building_def)
    from Cons.prems have "list_all (\<lambda>f. is_control f \<or> is_cont_fragment f) mid" by simp
    from Cons.IH [OF b this] process_cont_fragment [OF Cons.prems(1,2) frag] False
    show ?thesis
      by (simp add: control_output_def fragments_payload_def)
  qed
qed

lemma idle_reset: "idle self \<Longrightarrow> self\<lparr>cont_data := None, recving_frames := None\<rparr> = self"
  by (simp add: idle_def)

lemma fragments_payload_Nil: "fragments_payload [] = []"
  by (simp add: fragments_payload_def)

lemma fragments_payload_Cons:
  "fragments_payload (f # fs) = (if is_control f then [] else data f) @ fragments_payload fs"
  by (simp add: fragments_payload_def)

lemma fragments_payload_append:
  "fragments_payload (fs @ gs) = fragments_payload fs @ fragments_payload gs"
  by (simp add: fragments_payload_def)

lemma process_all_message:
  assumes idle: "idle self" and nf: "\<not> fire_cont_frame self"
    and f0: "opcode f0 = OPCODE_TEXT" "fin f0 = 0"
    and mid: "list_all (\<lambda>f. is_control f \<or> is_cont_fragment f) mid"
    and fl: "opcode fl = OPCODE_CONT" "fin fl = 1"
  shows "process_all self (f0 # mid @ [fl]) =
     (if \<not> skip_utf8_validation_cf self \<and> \<not> validate_utf8 (fragments_payload (f0 # mid @ [fl]))
      then (Inl (WebSocketPayloadException (fragments_payload (f0 # mid @ [fl]))), self)
      else (Inr (None # map control_output mid
                 @ [Some (OPCODE_TEXT, fl\<lparr>data := fragments_payload (f0 # mid @ [fl])\<rparr>)]),
            self))"
proof -
  define s1 where
    "s1 = self\<lparr>cont_data := Some (OPCODE_TEXT, data f0), recving_frames := Some OPCODE_TEXT\<rparr>"
  define s2 where
    "s2 = s1\<lparr>cont_data := Some (OPCODE_TEXT, data f0 @ fragments_payload mid)\<rparr>"
  have nc: "\<not> is_control f0" "\<not> is_control fl"
    using f0 fl by (simp_all add: is_control_def opcode_defs)
  have pay: "fragments_payload (f0 # mid @ [fl]) = (data f0 @ fragments_payload mid) @ data fl"
    using nc by (simp add: fragments_payload_Cons fragments_payload_append fragments_payload_Nil)
  have 1: "process self f0 = (Inr None, s1)"
    unfolding s1_def using idle nf f0 by (rule process_first_fragment)
  have b1: "building s1 OPCODE_TEXT (data f0)" "\<not> fire_cont_frame s1"
    using nf by (simp_all add: building_def s1_def)
  have 2: "process_all s1 mid = (Inr (map control_output mid), s2)"
    unfolding s2_def using b1 mid by (rule process_all_middle)
  have b2: "building s2 OPCODE_TEXT (data f0 @ fragments_payload mid)" "\<not> fire_cont_frame s2"
    using nf by (simp_all add: building_def s1_def s2_def)
  have s: "s2\<lparr>cont_data := None, recving_frames := None\<rparr> = self"
    using idle by (simp add: idle_def s1_def s2_def)
  have sk: "skip_utf8_validation_cf s2 = skip_utf8_validation_cf self"
    by (simp add: s1_def s2_def)
  note 3 = process_last_fragment [OF b2 fl, unfolded s sk]
  show ?thesis
    unfolding pay by (simp add: 1 process_all_append 2 3 del: append_assoc)
qed

lemma process_single_text:
  assumes "idle self" "\<not> fire_cont_frame self" "opcode f = OPCODE_TEXT" "fin f = 1"
  shows "process self f =
     (if \<not> skip_utf8_validation_cf self \<and> \<not> validate_utf8 (data f)
      then (Inl (WebSocketPayloadException (data f)), self)
      else (Inr (Some (OPCODE_TEXT, f)), self))"
proof -
  have "self\<lparr>recving_frames := None, cont_data := None\<rparr> = self"
    using assms(1) by (simp add: idle_def)
  with assms show ?thesis
    by (auto simp: process_def validate_cf_def recving_def idle_def add_cf_def is_fire_def
        truthy_def opcode_defs extract_cf_def)
qed

text \<open>
  Claim C3, amended. With \<open>fire_cont_frame = false\<close>: a CONT frame while no message is
  being built is a protocol error ("Illegal frame"); a TEXT or BINARY frame while a message
  is being built is a protocol error; a control frame is emitted immediately and leaves
  the state as it was; and for a fragment sequence \<open>F0 = (TEXT, fin=0)\<close>, then frames that
  are \<open>(CONT, fin=0)\<close> or control frames, then \<open>(CONT, fin=1)\<close>, starting from the idle
  state, exactly one message is emitted, by the final frame: its opcode is TEXT and its
  payload is the concatenation of the fragment payloads, the control frames in between
  are emitted as they come, and the reassembler is idle again - provided UTF-8 validation
  is skipped or the concatenated payload is valid UTF-8.
\<close>

theorem reassembly:
  assumes "\<not> fire_cont_frame self"
  shows "(idle self \<and> opcode f = OPCODE_CONT \<longrightarrow>
            process self f = (Inl (WebSocketProtocolException ''Illegal frame''), self)) \<and>
         (building self op acc \<and> opcode f \<in> {OPCODE_TEXT, OPCODE_BINARY} \<longrightarrow>
            process self f = (Inl (WebSocketProtocolException ''Illegal frame''), self)) \<and>
         (is_control f \<longrightarrow> process self f = (Inr (Some (opcode f, f)), self)) \<and>
         (idle self \<and> opcode f0 = OPCODE_TEXT \<and> fin f0 = 0 \<and>
          list_all (\<lambda>f. is_control f \<or> is_cont_fragment f) mid \<and>
          opcode fl = OPCODE_CONT \<and> fin fl = 1 \<and>
          (skip_utf8_validation_cf self \<or> validate_utf8 (fragments_payload (f0 # mid @ [fl]))) \<longrightarrow>
            process_all self (f0 # mid @ [fl]) =
              (Inr (None # map control_output mid
                    @ [Some (OPCODE_TEXT, fl\<lparr>data := fragments_payload (f0 # mid @ [fl])\<rparr>)]),
               self))"
proof (intro conjI impI)
  assume "idle self \<and> opcode f = OPCODE_CONT"
  then show "process self f = (Inl (WebSocketProtocolException ''Illegal frame''), self)"
    by (simp add: process_idle_cont)
next
  assume "building self op acc \<and> opcode f \<in> {OPCODE_TEXT, OPCODE_BINARY}"
  then show "process self f = (Inl (WebSocketProtocolException ''Illegal frame''), self)"
    using process_building_data [of self op acc f] by simp
next
  assume "is_control f"
  then show "process self f = (Inr (Some (opcode f, f)), self)"
    by (rule process_control)
next
  assume a: "idle self \<and> opcode f0 = OPCODE_TEXT \<and> fin f0 = 0 \<and>
          list_all (\<lambda>f. is_control f \<or> is_cont_fragment f) mid \<and>
          opcode fl = OPCODE_CONT \<and> fin fl = 1 \<and>
          (skip_utf8_validation_cf self \<or> validate_utf8 (fragments_payload (f0 # mid @ [fl])))"
  then have "process_all self (f0 # mid @ [fl]) =
     (if \<not> skip_utf8_validation_cf self \<and> \<not> validate_utf8 (fragments_payload (f0 # mid @ [fl]))
      then (Inl (WebSocketPayloadException (fragments_payload (f0 # mid @ [fl]))), self)
      else (Inr (None # map control_output mid
                 @ [Some (OPCODE_TEXT, fl\<lparr>data := fragments_payload (f0 # mid @ [fl])\<rparr>)]),
            self))"
    using assms by (intro process_all_message) simp_all
  with a show "process_all self (f0 # mid @ [fl]) =
              (Inr (None # map control_output mid
                    @ [Some (OPCODE_TEXT, fl\<lparr>data := fragments_payload (f0 # mid @ [fl])\<rparr>)]),
               self)"
    by auto
qed

text \<open>
  Claim C3 as stated fails when the concatenated payload is not valid UTF-8 and validation
  is not skipped: the final frame raises a payload error and no message is emitted. The
  fragments \<open>C0\<close> and \<open>AF\<close> form an overlong encoding.
\<close>

theorem reassembly_counterexample:
  "process_all (continuous_frame_init False False)
     [received_frame OPCODE_TEXT 0 [0xC0], received_frame OPCODE_CONT 1 [0xAF]]
   = (Inl (WebSocketPayloadException [0xC0, 0xAF]), continuous_frame_init False False)"
  by (simp add: received_frame_def ABNF_init_def continuous_frame_init_def process_def validate_cf_def
        recving_def add_cf_def is_fire_def truthy_def opcode_defs extract_cf_def)


lemma received_frame_simps:
  "opcode (received_frame op f p) = op" "fin (received_frame op f p) = f"
  "data (received_frame op f p) = p" "rsv1 (received_frame op f p) = 0"
  "rsv2 (received_frame op f p) = 0" "rsv3 (received_frame op f p) = 0"
  by (simp_all add: received_frame_def ABNF_init_def)

lemma continuous_frame_init_simps:
  "idle (continuous_frame_init fire skip)"
  "fire_cont_frame (continuous_frame_init fire skip) = fire"
  "skip_utf8_validation_cf (continuous_frame_init fire skip) = skip"
  by (simp_all add: continuous_frame_init_def idle_def)

text \<open>
  The theorem at concrete frames: "Hel", a PING, "l" and "o" reassemble to "Hello".
\<close>

theorem reassembly_witness:
  "process (continuous_frame_init False False) (received_frame OPCODE_CONT 1 [0x6C, 0x6F])
     = (Inl (WebSocketProtocolException ''Illegal frame''), continuous_frame_init False False) \<and>
   process ((continuous_frame_init False False)
              \<lparr>cont_data := Some (OPCODE_TEXT, [0x48]), recving_frames := Some OPCODE_TEXT\<rparr>)
           (received_frame OPCODE_BINARY 1 [0x65])
     = (Inl (WebSocketProtocolException ''Illegal frame''),
        (continuous_frame_init False False)
              \<lparr>cont_data := Some (OPCODE_TEXT, [0x48]), recving_frames := Some OPCODE_TEXT\<rparr>) \<and>
   process_all (continuous_frame_init False False)
     [received_frame OPCODE_TEXT 0 [0x48, 0x65, 0x6C],
      received_frame OPCODE_PING 1 [0x21],
      received_frame OPCODE_CONT 0 [0x6C],
      received_frame OPCODE_CONT 1 [0x6F]]
     = (Inr [None, Some (OPCODE_PING, received_frame OPCODE_PING 1 [0x21]), None,
             Some (OPCODE_TEXT,
                   (received_frame OPCODE_CONT 1 [0x6F])\<lparr>data := [0x48, 0x65, 0x6C, 0x6C, 0x6F]\<rparr>)],
        continuous_frame_init False False)"
proof -
  let ?init = "continuous_frame_init False False"
  let ?b = "?init\<lparr>cont_data := Some (OPCODE_TEXT, [0x48]), recving_frames := Some OPCODE_TEXT\<rparr>"
  have nf: "\<not> fire_cont_frame ?init" "\<not> fire_cont_frame ?b"
    by (simp_all add: continuous_frame_init_def)
  have b: "building ?b OPCODE_TEXT [0x48]"
    by (simp add: building_def)
  have ctl: "is_control (received_frame OPCODE_PING 1 [0x21])"
    "\<not> is_control (received_frame OPCODE_CONT 0 [0x6C])"
    "\<not> is_control (received_frame OPCODE_CONT 1 [0x6F])"
    "\<not> is_control (received_frame OPCODE_TEXT 0 [0x48, 0x65, 0x6C])"
    "is_cont_fragment (received_frame OPCODE_CONT 0 [0x6C])"
    by (simp_all add: is_control_def is_cont_fragment_def received_frame_simps opcode_defs)
  have ascii: "validate_utf8 [0x48, 0x65, 0x6C, 0x6C, 0x6F]" by simp
  note r1 = reassembly [OF nf(1), of "received_frame OPCODE_CONT 1 [0x6C, 0x6F]" 0 "[]"
      "received_frame OPCODE_TEXT 0 [0x48, 0x65, 0x6C]"
      "[received_frame OPCODE_PING 1 [0x21], received_frame OPCODE_CONT 0 [0x6C]]"
      "received_frame OPCODE_CONT 1 [0x6F]"]
  note r2 = reassembly [OF nf(2), of "received_frame OPCODE_BINARY 1 [0x65]" OPCODE_TEXT "[0x48]"]
  from r1 have 1: "process ?init (received_frame OPCODE_CONT 1 [0x6C, 0x6F])
     = (Inl (WebSocketProtocolException ''Illegal frame''), ?init)"
    by (simp add: continuous_frame_init_simps received_frame_simps)
  from r2 b have 2: "process ?b (received_frame OPCODE_BINARY 1 [0x65])
     = (Inl (WebSocketProtocolException ''Illegal frame''), ?b)"
    by (simp add: received_frame_simps)
  from r1 [THEN conjunct2, THEN conjunct2, THEN conjunct2] ascii
  have 3: "process_all ?init
     [received_frame OPCODE_TEXT 0 [0x48, 0x65, 0x6C],
      received_frame OPCODE_PING 1 [0x21],
      received_frame OPCODE_CONT 0 [0x6C],
      received_frame OPCODE_CONT 1 [0x6F]]
     = (Inr [None, Some (OPCODE_PING, received_frame OPCODE_PING 1 [0x21]), None,
             Some (OPCODE_TEXT,
                   (received_frame OPCODE_CONT 1 [0x6F])\<lparr>data := [0x48, 0x65, 0x6C, 0x6C, 0x6F]\<rparr>)],
        ?init)"
    by (simp add: continuous_frame_init_simps received_frame_simps ctl fragments_payload_def
          control_output_def)
  from 1 2 3 show ?thesis by blast
qed

text \<open>
  Claim C6, amended. With \<open>fire_cont_frame = false\<close> and UTF-8 validation not skipped,
  \<open>extract\<close> raises a payload error (\<open>WebSocketPayloadException\<close>) for a TEXT message
  whose reassembled payload is not valid UTF-8 - so does processing one unfragmented TEXT
  frame or a fragment sequence with such a payload. A CLOSE frame
  whose reason bytes after the 2-byte status code are not valid UTF-8 raises a protocol
  error (\<open>WebSocketProtocolException\<close>, "Invalid close frame."), not a payload error.
\<close>

theorem malformed_utf8:
  "(\<not> fire_cont_frame self \<and> \<not> skip_utf8_validation_cf self \<and>
    cont_data self = Some (OPCODE_TEXT, d) \<and> \<not> validate_utf8 d \<longrightarrow>
      extract_cf self f = (Inl (WebSocketPayloadException d), self\<lparr>cont_data := None\<rparr>)) \<and>
   (idle self \<and> \<not> fire_cont_frame self \<and> \<not> skip_utf8_validation_cf self \<and>
    opcode f = OPCODE_TEXT \<and> fin f = 1 \<and> \<not> validate_utf8 (data f) \<longrightarrow>
      process self f = (Inl (WebSocketPayloadException (data f)), self)) \<and>
   (idle self \<and> \<not> fire_cont_frame self \<and> \<not> skip_utf8_validation_cf self \<and>
    opcode f0 = OPCODE_TEXT \<and> fin f0 = 0 \<and>
    list_all (\<lambda>f. is_control f \<or> is_cont_fragment f) mid \<and>
    opcode fl = OPCODE_CONT \<and> fin fl = 1 \<and>
    \<not> validate_utf8 (fragments_payload (f0 # mid @ [fl])) \<longrightarrow>
      process_all self (f0 # mid @ [fl])
        = (Inl (WebSocketPayloadException (fragments_payload (f0 # mid @ [fl]))), self)) \<and>
   (opcode c = OPCODE_CLOSE \<and> rsv1 c = 0 \<and> rsv2 c = 0 \<and> rsv3 c = 0 \<and>
    2 < length (data c) \<and> length (data c) < 126 \<and> \<not> validate_utf8 (drop 2 (data c)) \<longrightarrow>
      validate c False = Inl (WebSocketProtocolException ''Invalid close frame.''))"
proof (intro conjI impI)
  assume "\<not> fire_cont_frame self \<and> \<not> skip_utf8_validation_cf self \<and>
    cont_data self = Some (OPCODE_TEXT, d) \<and> \<not> validate_utf8 d"
  then show "extract_cf self f = (Inl (WebSocketPayloadException d), self\<lparr>cont_data := None\<rparr>)"
    by (simp add: extract_cf_def)
next
  assume "idle self \<and> \<not> fire_cont_frame self \<and> \<not> skip_utf8_validation_cf self \<and>
    opcode f = OPCODE_TEXT \<and> fin f = 1 \<and> \<not> validate_utf8 (data f)"
  then show "process self f = (Inl (WebSocketPayloadException (data f)), self)"
    by (simp add: process_single_text)
next
  assume "idle self \<and> \<not> fire_cont_frame self \<and> \<not> skip_utf8_validation_cf self \<and>
    opcode f0 = OPCODE_TEXT \<and> fin f0 = 0 \<and>
    list_all (\<lambda>f. is_control f \<or> is_cont_fragment f) mid \<and>
    opcode fl = OPCODE_CONT \<and> fin fl = 1 \<and>
    \<not> validate_utf8 (fragments_payload (f0 # mid @ [fl]))"
  then show "process_all self (f0 # mid @ [fl])
        = (Inl (WebSocketPayloadException (fragments_payload (f0 # mid @ [fl]))), self)"
    using process_all_message [of self f0 mid fl] by (simp del: process_all.simps)
next
  assume "opcode c = OPCODE_CLOSE \<and> rsv1 c = 0 \<and> rsv2 c = 0 \<and> rsv3 c = 0 \<and>
    2 < length (data c) \<and> length (data c) < 126 \<and> \<not> validate_utf8 (drop 2 (data c))"
  then show "validate c False = Inl (WebSocketProtocolException ''Invalid close frame.'')"
    by (auto simp: validate_close_unfold Let_def)
qed

text \<open>
  The theorem at the overlong encoding \<open>C0 AF\<close>: in one TEXT frame, split over two
  fragments, and as the reason of a close frame with code 1000.
\<close>

theorem malformed_utf8_witness:
  "extract_cf ((continuous_frame_init False False)\<lparr>cont_data := Some (OPCODE_TEXT, [0xC0, 0xAF])\<rparr>)
     (received_frame OPCODE_TEXT 1 [0xC0, 0xAF])
     = (Inl (WebSocketPayloadException [0xC0, 0xAF]), continuous_frame_init False False) \<and>
   process (continuous_frame_init False False) (received_frame OPCODE_TEXT 1 [0xC0, 0xAF])
     = (Inl (WebSocketPayloadException [0xC0, 0xAF]), continuous_frame_init False False) \<and>
   process_all (continuous_frame_init False False)
     [received_frame OPCODE_TEXT 0 [0x48, 0xC0], received_frame OPCODE_CONT 1 [0xAF]]
     = (Inl (WebSocketPayloadException [0x48, 0xC0, 0xAF]), continuous_frame_init False False) \<and>
   validate (received_frame OPCODE_CLOSE 1 [0x03, 0xE8, 0xC0, 0xAF]) False
     = Inl (WebSocketProtocolException ''Invalid close frame.'')"
proof -
  let ?init = "continuous_frame_init False False"
  have nc: "\<not> is_control (received_frame OPCODE_TEXT 0 [0x48, 0xC0])"
    "\<not> is_control (received_frame OPCODE_CONT 1 [0xAF])"
    by (simp_all add: is_control_def received_frame_simps opcode_defs)
  have bad: "\<not> validate_utf8 [0xC0, 0xAF]" "\<not> validate_utf8 [0x48, 0xC0, 0xAF]" by simp_all
  note m0 = malformed_utf8 [where self = "?init\<lparr>cont_data := Some (OPCODE_TEXT, [0xC0, 0xAF])\<rparr>"
      and d = "[0xC0, 0xAF]" and f = "received_frame OPCODE_TEXT 1 [0xC0, 0xAF]", THEN conjunct1]
  from m0 bad have 0:
    "extract_cf (?init\<lparr>cont_data := Some (OPCODE_TEXT, [0xC0, 0xAF])\<rparr>)
       (received_frame OPCODE_TEXT 1 [0xC0, 0xAF])
       = (Inl (WebSocketPayloadException [0xC0, 0xAF]), ?init)"
    by (simp add: continuous_frame_init_def)
  note m = malformed_utf8 [where self = ?init
      and f = "received_frame OPCODE_TEXT 1 [0xC0, 0xAF]"
      and ?f0.0 = "received_frame OPCODE_TEXT 0 [0x48, 0xC0]" and mid = "[]"
      and fl = "received_frame OPCODE_CONT 1 [0xAF]"
      and c = "received_frame OPCODE_CLOSE 1 [0x03, 0xE8, 0xC0, 0xAF]", THEN conjunct2]
  from m [THEN conjunct1] bad have 1:
    "process ?init (received_frame OPCODE_TEXT 1 [0xC0, 0xAF])
       = (Inl (WebSocketPayloadException [0xC0, 0xAF]), ?init)"
    by (simp add: continuous_frame_init_simps received_frame_simps)
  from m [THEN conjunct2, THEN conjunct1] bad have 2:
    "process_all ?init
       [received_frame OPCODE_TEXT 0 [0x48, 0xC0], received_frame OPCODE_CONT 1 [0xAF]]
       = (Inl (WebSocketPayloadException [0x48, 0xC0, 0xAF]), ?init)"
    by (simp add: continuous_frame_init_simps received_frame_simps fragments_payload_def nc)
  from m [THEN conjunct2, THEN conjunct2] bad have 3:
    "validate (received_frame OPCODE_CLOSE 1 [0x03, 0xE8, 0xC0, 0xAF]) False
       = Inl (WebSocketProtocolException ''Invalid close frame.'')"
    by (simp add: received_frame_simps)
  from 0 1 2 3 show ?thesis by (intro conjI)
qed

text \<open>
  Claim C6 as stated fails on the close frame with code 1000 and reason \<open>C0 AF\<close>: the
  error it raises is a protocol error and not a payload error.
\<close>

theorem close_reason_counterexample:
  "close_code (received_frame OPCODE_CLOSE 1 [0x03, 0xE8, 0xC0, 0xAF]) = 1000 \<and>
   \<not> validate_utf8 (drop 2 (data (received_frame OPCODE_CLOSE 1 [0x03, 0xE8, 0xC0, 0xAF]))) \<and>
   is_protocol_error (validate (received_frame OPCODE_CLOSE 1 [0x03, 0xE8, 0xC0, 0xAF]) False) \<and>
   \<not> is_payload_error (validate (received_frame OPCODE_CLOSE 1 [0x03, 0xE8, 0xC0, 0xAF]) False)"
  by (simp add: received_frame_def ABNF_init_def close_code_def validate_def truthy_def
        opcode_defs is_protocol_error_def is_payload_error_def)

section \<open>The encoder\<close>

lemma bind_err_simps [simp]:
  "bind_err (Inr x) f = f x" "bind_err (Inl e) f = Inl e"
  by (simp_all add: bind_err_def)

lemma to_bytes_little_map:
  "to_bytes_little n x = map (\<lambda>i. word_of_int (x div 256 ^ i mod 256)) [0..<n]"
proof (induction n arbitrary: x)
  case 0
  show ?case by simp
next
  case (Suc n)
  have "[0..<Suc n] = 0 # map Suc [0..<n]"
    by (simp add: upt_conv_Cons map_Suc_upt del: upt_Suc)
  then show ?case
    by (simp add: Suc.IH zdiv_zmult2_eq del: upt_Suc)
qed

lemma pack_big_endian: "rev (to_bytes_little n (int x)) = big_endian n x"
proof (rule nth_equalityI)
  show "length (rev (to_bytes_little n (int x))) = length (big_endian n x)"
    by (simp add: to_bytes_little_map big_endian_def)
next
  fix i assume "i < length (rev (to_bytes_little n (int x)))"
  then have i: "i < n" by (simp add: to_bytes_little_map)
  have "word_of_int (int x div 256 ^ (n - Suc i) mod 256) = (of_nat (x div 256 ^ (n - Suc i) mod 256) :: byte)"
  proof -
    have "int x div 256 ^ (n - Suc i) mod 256 = int (x div 256 ^ (n - Suc i) mod 256)"
      by (simp add: zdiv_int zmod_int)
    then show ?thesis by (simp only: of_int_of_nat_eq)
  qed
  with i show "rev (to_bytes_little n (int x)) ! i = big_endian n x ! i"
    by (simp add: to_bytes_little_map big_endian_def rev_nth)
qed

lemma or_byte_range:
  assumes "0 \<le> (a::int)" "a < 256" "0 \<le> b" "b < 256"
  shows "0 \<le> a OR b" "a OR b < 256"
proof -
  show "0 \<le> a OR b" using assms by simp
  have "a < 2 ^ 8" "b < 2 ^ 8" using assms by simp_all
  with assms have "a OR b < 2 ^ 8" by (intro OR_upper) simp_all
  then show "a OR b < 256" by simp
qed

lemma chr_latin1_byte: "0 \<le> x \<Longrightarrow> x < 256 \<Longrightarrow> chr_latin1 x = Inr [word_of_int x]"
  by (simp add: chr_latin1_def)

lemma bit_field_range:
  assumes "x \<in> {0, 1 :: int}" "n < 8"
  shows "0 \<le> push_bit n x" "push_bit n x < 256"
proof -
  have "(2::int) ^ n < 2 ^ 8" using assms(2) by (intro power_strict_increasing) simp_all
  then have "(2::int) ^ n < 256" by simp
  with assms(1) show "0 \<le> push_bit n x" "push_bit n x < 256"
    by (auto simp: push_bit_eq_mult)
qed

lemma opcode_range:
  assumes "op \<in> set OPCODES"
  shows "0 \<le> op" "op < 256"
  using assms by (auto simp: opcode_defs)

lemma byte0_range:
  assumes "header_fields_ok f"
  shows "0 \<le> push_bit 7 (fin f) OR push_bit 6 (rsv1 f) OR push_bit 5 (rsv2 f)
                    OR push_bit 4 (rsv3 f) OR opcode f"
    and "push_bit 7 (fin f) OR push_bit 6 (rsv1 f) OR push_bit 5 (rsv2 f)
                    OR push_bit 4 (rsv3 f) OR opcode f < 256"
proof -
  from assms have f: "fin f \<in> {0, 1}" "rsv1 f \<in> {0, 1}" "rsv2 f \<in> {0, 1}"
    "rsv3 f \<in> {0, 1}" "opcode f \<in> set OPCODES"
    by (simp_all add: header_fields_ok_def)
  have a: "0 \<le> push_bit 7 (fin f)" "push_bit 7 (fin f) < 256"
    "0 \<le> push_bit 6 (rsv1 f)" "push_bit 6 (rsv1 f) < 256"
    "0 \<le> push_bit 5 (rsv2 f)" "push_bit 5 (rsv2 f) < 256"
    "0 \<le> push_bit 4 (rsv3 f)" "push_bit 4 (rsv3 f) < 256"
    "0 \<le> opcode f" "opcode f < 256"
    using bit_field_range [OF f(1), of 7] bit_field_range [OF f(2), of 6]
      bit_field_range [OF f(3), of 5] bit_field_range [OF f(4), of 4] opcode_range [OF f(5)]
    by simp_all
  note r4 = or_byte_range [OF a(7,8) a(9,10)]
  note r3 = or_byte_range [OF a(5,6) r4]
  note r2 = or_byte_range [OF a(3,4) r3]
  note r1 = or_byte_range [OF a(1,2) r2]
  from r1 show "0 \<le> push_bit 7 (fin f) OR push_bit 6 (rsv1 f) OR push_bit 5 (rsv2 f)
                    OR push_bit 4 (rsv3 f) OR opcode f"
    and "push_bit 7 (fin f) OR push_bit 6 (rsv1 f) OR push_bit 5 (rsv2 f)
                    OR push_bit 4 (rsv3 f) OR opcode f < 256"
    by (simp_all add: or.assoc)
qed

lemma byte1_range:
  assumes "header_fields_ok f" "0 \<le> l" "l < 128"
  shows "0 \<le> push_bit 7 (mask_value f) OR l" "push_bit 7 (mask_value f) OR l < 256"
proof -
  from assms have "mask_value f \<in> {0, 1}" by (simp add: header_fields_ok_def)
  from bit_field_range [OF this, of 7]
  have a: "0 \<le> push_bit 7 (mask_value f)" "push_bit 7 (mask_value f) < 256" by simp_all
  from assms have l: "0 \<le> l" "l < 256" by simp_all
  from or_byte_range [OF a l]
  show "0 \<le> push_bit 7 (mask_value f) OR l" "push_bit 7 (mask_value f) OR l < 256" .
qed

lemma length_part:
  assumes ok: "header_fields_ok f" and len: "data_msg_length_bytes f < 2 ^ 63"
  shows "(if data_msg_length_bytes f < LENGTH_7 then
             chr_latin1 (push_bit 7 (mask_value f) OR int (data_msg_length_bytes f))
           else if data_msg_length_bytes f < LENGTH_16 then
             bind_err (chr_latin1 (push_bit 7 (mask_value f) OR 0x7E)) (\<lambda>byte1.
             bind_err (pack_H (data_msg_length_bytes f)) (\<lambda>ext. Inr (byte1 @ ext)))
           else
             bind_err (chr_latin1 (push_bit 7 (mask_value f) OR 0x7F)) (\<lambda>byte1.
             bind_err (pack_Q (data_msg_length_bytes f)) (\<lambda>ext. Inr (byte1 @ ext))))
        = Inr (tl (header_spec f))"
proof -
  have b1: "\<And>l. 0 \<le> l \<Longrightarrow> l < 128 \<Longrightarrow>
       chr_latin1 (push_bit 7 (mask_value f) OR l) = Inr [word_of_int (push_bit 7 (mask_value f) OR l)]"
    using byte1_range [OF ok] by (intro chr_latin1_byte)
  have q: "data_msg_length_bytes f < 2 ^ 64"
    using len by (rule less_trans) simp
  show ?thesis
    using len q
    by (simp add: LENGTH_7_def LENGTH_16_def b1 pack_H_def pack_Q_def
          pack_big_endian header_spec_def Let_def)
qed

lemma format_unfold:
  assumes ok: "header_fields_ok f" and len: "data_msg_length_bytes f < 2 ^ 63"
  shows "format gmk bo f =
           bind_err (after_mask gmk bo f) (\<lambda>self. Inr (place_header (header_spec f) self))"
proof -
  let ?L = "data_msg_length_bytes f"
  have chk: "list_ex (\<lambda>x. x \<noteq> 0 \<and> x \<noteq> 1) [fin f, rsv1 f, rsv2 f, rsv3 f] = False"
    "(opcode f \<notin> set OPCODES) = False" "(LENGTH_63 \<le> ?L) = False"
    using ok len by (auto simp: header_fields_ok_def LENGTH_63_def)
  have b0: "chr_latin1 (push_bit 7 (fin f) OR push_bit 6 (rsv1 f) OR push_bit 5 (rsv2 f)
                    OR push_bit 4 (rsv3 f) OR opcode f)
            = Inr [word_of_int (push_bit 7 (fin f) OR push_bit 6 (rsv1 f) OR push_bit 5 (rsv2 f)
                    OR push_bit 4 (rsv3 f) OR opcode f)]"
    using byte0_range [OF ok] by (rule chr_latin1_byte)
  have hd: "[word_of_int (push_bit 7 (fin f) OR push_bit 6 (rsv1 f) OR push_bit 5 (rsv2 f)
                    OR push_bit 4 (rsv3 f) OR opcode f)] @ tl (header_spec f) = header_spec f"
    by (simp add: header_spec_def Let_def)
  show ?thesis
    unfolding format_def after_mask_def [symmetric]
    by (simp only: chk if_False b0 length_part [OF ok len] bind_err_simps Let_def hd
          place_header_def)
qed

lemma length_to_bytes_little [simp]: "length (to_bytes_little n x) = n"
  by (induction n arbitrary: x) simp_all

lemma module_mask_length: "module_mask bo k d = Inr s \<Longrightarrow> length s = length d"
  by (auto simp: module_mask_def int_to_bytes_def Let_def split: if_splits byteorder.splits)

lemma length_header_spec:
  "length (header_spec f) =
     (if data_msg_length_bytes f < 126 then 2 else if data_msg_length_bytes f < 2 ^ 16 then 4 else 10)"
  by (simp add: header_spec_def Let_def big_endian_def)

lemma after_mask_unmasked: "mask_value f = 0 \<Longrightarrow> after_mask gmk bo f = Inr f"
  by (simp add: after_mask_def truthy_def)

lemma after_mask_masked:
  assumes "mask_value f = 1" "length (gmk 4) = 4"
  shows "after_mask gmk bo f =
           Inr (f\<lparr>data := gmk 4 @ map (\<lambda>i. data f ! i XOR gmk 4 ! (i mod 4)) [0..<length (data f)],
                  data_start_offset_bytes := 0,
                  data_msg_length_bytes := 4 + length (data f)\<rparr>)"
  using assms
  by (simp add: after_mask_def truthy_def get_masked_def ABNF_mask_def module_mask_eq)

lemma place_header_copy:
  assumes "\<not> length h < data_start_offset_bytes g"
  shows "place_header h g =
           (h @ data g, g\<lparr>data := h @ data g, data_start_offset_bytes := 0,
                          data_msg_length_bytes := length h + length (data g)\<rparr>)"
  using assms by (simp add: place_header_def Let_def)

lemma place_header_in_place:
  assumes "length h < data_start_offset_bytes g"
    and "data_start_offset_bytes g + data_msg_length_bytes g \<le> length (data g)"
  shows "place_header h g =
           (h @ take (data_msg_length_bytes g) (drop (data_start_offset_bytes g) (data g)),
            g\<lparr>data := take (data_start_offset_bytes g - length h) (data g) @ h
                       @ drop (data_start_offset_bytes g) (data g),
              data_start_offset_bytes := data_start_offset_bytes g - length h,
              data_msg_length_bytes := data_msg_length_bytes g + length h\<rparr>)"
proof -
  let ?o = "data_start_offset_bytes g"
  have l: "length (take (?o - length h) (data g)) = ?o - length h"
    using assms by simp
  have "drop (?o - length h) (take (?o - length h) (data g) @ h @ drop ?o (data g))
          = h @ drop ?o (data g)"
    using l by (simp del: length_take)
  moreover have "take (data_msg_length_bytes g + length h) (h @ drop ?o (data g))
          = h @ take (data_msg_length_bytes g) (drop ?o (data g))"
    by simp
  ultimately show ?thesis
    using assms(1) by (simp add: place_header_def Let_def del: drop_append take_append)
qed

lemma format_unmasked_copy:
  assumes "header_fields_ok f" "data_msg_length_bytes f < 2 ^ 63" "mask_value f = 0"
    and "\<not> length (header_spec f) < data_start_offset_bytes f"
  shows "format gmk bo f =
     Inr (header_spec f @ data f,
          f\<lparr>data := header_spec f @ data f, data_start_offset_bytes := 0,
            data_msg_length_bytes := length (header_spec f) + length (data f)\<rparr>)"
  using assms by (simp add: format_unfold after_mask_unmasked place_header_copy)

lemma format_unmasked_in_place:
  assumes "header_fields_ok f" "data_msg_length_bytes f < 2 ^ 63" "mask_value f = 0"
    and "length (header_spec f) < data_start_offset_bytes f"
    and "data_start_offset_bytes f + data_msg_length_bytes f \<le> length (data f)"
  shows "format gmk bo f =
     Inr (header_spec f @ take (data_msg_length_bytes f) (drop (data_start_offset_bytes f) (data f)),
          f\<lparr>data := take (data_start_offset_bytes f - length (header_spec f)) (data f)
                     @ header_spec f @ drop (data_start_offset_bytes f) (data f),
            data_start_offset_bytes := data_start_offset_bytes f - length (header_spec f),
            data_msg_length_bytes := data_msg_length_bytes f + length (header_spec f)\<rparr>)"
  using assms by (simp add: format_unfold after_mask_unmasked place_header_in_place)

lemma format_masked:
  assumes "header_fields_ok f" "data_msg_length_bytes f < 2 ^ 63" "mask_value f = 1"
    and "length (gmk 4) = 4"
  shows "format gmk bo f =
     Inr (header_spec f @ gmk 4 @ map (\<lambda>i. data f ! i XOR gmk 4 ! (i mod 4)) [0..<length (data f)],
          f\<lparr>data := header_spec f @ gmk 4
                     @ map (\<lambda>i. data f ! i XOR gmk 4 ! (i mod 4)) [0..<length (data f)],
            data_start_offset_bytes := 0,
            data_msg_length_bytes := length (header_spec f) + (4 + length (data f))\<rparr>)"
  using assms by (simp add: format_unfold after_mask_masked place_header_copy)

lemma header_spec_nth0:
  "header_spec f ! 0 = word_of_int (push_bit 7 (fin f) OR push_bit 6 (rsv1 f) OR push_bit 5 (rsv2 f)
                    OR push_bit 4 (rsv3 f) OR opcode f)"
  by (simp add: header_spec_def Let_def)

lemma header_spec_short:
  "data_msg_length_bytes f < 126 \<Longrightarrow>
   header_spec f = [header_spec f ! 0,
                    word_of_int (push_bit 7 (mask_value f) OR int (data_msg_length_bytes f))]"
  by (simp add: header_spec_def Let_def)

lemma header_spec_medium:
  "126 \<le> data_msg_length_bytes f \<Longrightarrow> data_msg_length_bytes f < 2 ^ 16 \<Longrightarrow>
   header_spec f = [header_spec f ! 0, word_of_int (push_bit 7 (mask_value f) OR 126)]
                   @ big_endian 2 (data_msg_length_bytes f)"
  by (simp add: header_spec_def Let_def)

lemma header_spec_long:
  "2 ^ 16 \<le> data_msg_length_bytes f \<Longrightarrow>
   header_spec f = [header_spec f ! 0, word_of_int (push_bit 7 (mask_value f) OR 127)]
                   @ big_endian 8 (data_msg_length_bytes f)"
  by (simp add: header_spec_def Let_def)

lemma format_starts_with_header:
  assumes ok: "header_fields_ok f" and len: "data_msg_length_bytes f < 2 ^ 63"
    and key: "length (gmk 4) = 4"
    and fit: "data_start_offset_bytes f + data_msg_length_bytes f \<le> length (data f)"
  shows "\<exists>body f'. format gmk bo f = Inr (header_spec f @ body, f')"
proof -
  from ok have "mask_value f = 0 \<or> mask_value f = 1" by (simp add: header_fields_ok_def)
  then show ?thesis
  proof
    assume m: "mask_value f = 0"
    show ?thesis
    proof (cases "length (header_spec f) < data_start_offset_bytes f")
      case True
      from format_unmasked_in_place [OF ok len m True fit] show ?thesis by blast
    next
      case False
      from format_unmasked_copy [OF ok len m False] show ?thesis by blast
    qed
  next
    assume m: "mask_value f = 1"
    from format_masked [where gmk = gmk, OF ok len m key] show ?thesis by blast
  qed
qed

text \<open>
  Claim C2. For a frame whose header fields are in range and whose payload length \<open>L\<close>
  is below \<open>2^63\<close> (the payload lying inside the buffer, the mask key having 4 bytes),
  \<open>format\<close> succeeds and emits the bit-exact header: byte 0 is
  \<open>fin<<7 | rsv1<<6 | rsv2<<5 | rsv3<<4 | opcode\<close>; the length field in byte 1 is \<open>L\<close>
  with no extended length when \<open>L < 126\<close>, is 126 followed by the 2-byte big-endian \<open>L\<close>
  when \<open>126 \<le> L < 2^16\<close>, and is 127 followed by the 8-byte big-endian \<open>L\<close> when
  \<open>L \<ge> 2^16\<close>; the payload (or the key and the masked payload) follows the header.
  In particular TEXT, fin=1, "Hello", unmasked is exactly \<open>81 05 48 65 6C 6C 6F\<close>, and
  256 zero bytes as BINARY, fin=1, unmasked start with \<open>82 7E 01 00\<close>.
\<close>

theorem format_header_layout:
  assumes ok: "header_fields_ok f" and len: "data_msg_length_bytes f < 2 ^ 63"
    and key: "length (gmk 4) = 4"
    and fit: "data_start_offset_bytes f + data_msg_length_bytes f \<le> length (data f)"
  shows "(\<exists>w f'. format gmk bo f = Inr (w, f') \<and>
            w ! 0 = word_of_int (push_bit 7 (fin f) OR push_bit 6 (rsv1 f) OR push_bit 5 (rsv2 f)
                                 OR push_bit 4 (rsv3 f) OR opcode f) \<and>
            (data_msg_length_bytes f < 126 \<longrightarrow>
               w ! 1 = word_of_int (push_bit 7 (mask_value f) OR int (data_msg_length_bytes f)) \<and>
               length (header_spec f) = 2) \<and>
            (126 \<le> data_msg_length_bytes f \<and> data_msg_length_bytes f < 2 ^ 16 \<longrightarrow>
               w ! 1 = word_of_int (push_bit 7 (mask_value f) OR 126) \<and>
               take 2 (drop 2 w) = big_endian 2 (data_msg_length_bytes f) \<and>
               length (header_spec f) = 4) \<and>
            (2 ^ 16 \<le> data_msg_length_bytes f \<longrightarrow>
               w ! 1 = word_of_int (push_bit 7 (mask_value f) OR 127) \<and>
               take 8 (drop 2 w) = big_endian 8 (data_msg_length_bytes f) \<and>
               length (header_spec f) = 10) \<and>
            (mask_value f = 0 \<and> data_start_offset_bytes f = 0 \<longrightarrow> w = header_spec f @ data f) \<and>
            (mask_value f = 1 \<longrightarrow>
               w = header_spec f @ gmk 4
                   @ map (\<lambda>i. data f ! i XOR gmk 4 ! (i mod 4)) [0..<length (data f)])) \<and>
         (\<exists>f'. format gmk bo (create_frame [0x48, 0x65, 0x6C, 0x6C, 0x6F] OPCODE_TEXT 1 False None None)
                 = Inr ([0x81, 0x05, 0x48, 0x65, 0x6C, 0x6C, 0x6F], f')) \<and>
         (\<exists>f'. format gmk bo (create_frame (replicate 256 0) OPCODE_BINARY 1 False None None)
                 = Inr ([0x82, 0x7E, 0x01, 0x00] @ replicate 256 0, f'))"
proof (intro conjI)
  from format_starts_with_header [where gmk = gmk, OF ok len key fit]
  obtain body f' where w: "format gmk bo f = Inr (header_spec f @ body, f')" by blast
  let ?w = "header_spec f @ body"
  have l: "2 \<le> length (header_spec f)" by (simp add: length_header_spec)
  have n0: "?w ! 0 = header_spec f ! 0" using l by (cases "header_spec f") simp_all
  have short: "data_msg_length_bytes f < 126 \<Longrightarrow>
      ?w ! 1 = word_of_int (push_bit 7 (mask_value f) OR int (data_msg_length_bytes f))"
    by (subst header_spec_short) simp_all
  have medium: "126 \<le> data_msg_length_bytes f \<Longrightarrow> data_msg_length_bytes f < 2 ^ 16 \<Longrightarrow>
      ?w ! 1 = word_of_int (push_bit 7 (mask_value f) OR 126) \<and>
      take 2 (drop 2 ?w) = big_endian 2 (data_msg_length_bytes f)"
  proof -
    assume a: "126 \<le> data_msg_length_bytes f" "data_msg_length_bytes f < 2 ^ 16"
    have "length (big_endian 2 (data_msg_length_bytes f)) = 2" by (simp add: big_endian_def)
    then show ?thesis
      by (subst (1 2) header_spec_medium [OF a]) simp
  qed
  have long: "2 ^ 16 \<le> data_msg_length_bytes f \<Longrightarrow>
      ?w ! 1 = word_of_int (push_bit 7 (mask_value f) OR 127) \<and>
      take 8 (drop 2 ?w) = big_endian 8 (data_msg_length_bytes f)"
  proof -
    assume a: "2 ^ 16 \<le> data_msg_length_bytes f"
    have "length (big_endian 8 (data_msg_length_bytes f)) = 8" by (simp add: big_endian_def)
    then show ?thesis
      by (subst (1 2) header_spec_long [OF a]) simp
  qed
  have unmasked: "mask_value f = 0 \<Longrightarrow> data_start_offset_bytes f = 0 \<Longrightarrow> ?w = header_spec f @ data f"
    using format_unmasked_copy [OF ok len, of gmk bo] w by simp
  have masked: "mask_value f = 1 \<Longrightarrow>
      ?w = header_spec f @ gmk 4 @ map (\<lambda>i. data f ! i XOR gmk 4 ! (i mod 4)) [0..<length (data f)]"
    using format_masked [where gmk = gmk, OF ok len _ key, of bo] w by simp
  show "\<exists>w f'. format gmk bo f = Inr (w, f') \<and>
            w ! 0 = word_of_int (push_bit 7 (fin f) OR push_bit 6 (rsv1 f) OR push_bit 5 (rsv2 f)
                                 OR push_bit 4 (rsv3 f) OR opcode f) \<and>
            (data_msg_length_bytes f < 126 \<longrightarrow>
               w ! 1 = word_of_int (push_bit 7 (mask_value f) OR int (data_msg_length_bytes f)) \<and>
               length (header_spec f) = 2) \<and>
            (126 \<le> data_msg_length_bytes f \<and> data_msg_length_bytes f < 2 ^ 16 \<longrightarrow>
               w ! 1 = word_of_int (push_bit 7 (mask_value f) OR 126) \<and>
               take 2 (drop 2 w) = big_endian 2 (data_msg_length_bytes f) \<and>
               length (header_spec f) = 4) \<and>
            (2 ^ 16 \<le> data_msg_length_bytes f \<longrightarrow>
               w ! 1 = word_of_int (push_bit 7 (mask_value f) OR 127) \<and>
               take 8 (drop 2 w) = big_endian 8 (data_msg_length_bytes f) \<and>
               length (header_spec f) = 10) \<and>
            (mask_value f = 0 \<and> data_start_offset_bytes f = 0 \<longrightarrow> w = header_spec f @ data f) \<and>
            (mask_value f = 1 \<longrightarrow>
               w = header_spec f @ gmk 4
                   @ map (\<lambda>i. data f ! i XOR gmk 4 ! (i mod 4)) [0..<length (data f)])"
  proof (intro exI conjI)
    show "format gmk bo f = Inr (?w, f')" by (rule w)
    show "?w ! 0 = word_of_int (push_bit 7 (fin f) OR push_bit 6 (rsv1 f) OR push_bit 5 (rsv2 f)
                                 OR push_bit 4 (rsv3 f) OR opcode f)"
      using n0 by (simp add: header_spec_nth0)
    have l2: "data_msg_length_bytes f < 126 \<Longrightarrow> length (header_spec f) = 2"
      and l4: "126 \<le> data_msg_length_bytes f \<and> data_msg_length_bytes f < 2 ^ 16
                 \<Longrightarrow> length (header_spec f) = 4"
      and l10: "2 ^ 16 \<le> data_msg_length_bytes f \<Longrightarrow> length (header_spec f) = 10"
      by (simp_all add: length_header_spec)
    show "data_msg_length_bytes f < 126 \<longrightarrow>
               ?w ! 1 = word_of_int (push_bit 7 (mask_value f) OR int (data_msg_length_bytes f)) \<and>
               length (header_spec f) = 2"
      using short l2 by blast
    show "126 \<le> data_msg_length_bytes f \<and> data_msg_length_bytes f < 2 ^ 16 \<longrightarrow>
               ?w ! 1 = word_of_int (push_bit 7 (mask_value f) OR 126) \<and>
               take 2 (drop 2 ?w) = big_endian 2 (data_msg_length_bytes f) \<and>
               length (header_spec f) = 4"
      using medium l4 by blast
    show "2 ^ 16 \<le> data_msg_length_bytes f \<longrightarrow>
               ?w ! 1 = word_of_int (push_bit 7 (mask_value f) OR 127) \<and>
               take 8 (drop 2 ?w) = big_endian 8 (data_msg_length_bytes f) \<and>
               length (header_spec f) = 10"
      using long l10 by blast
    show "mask_value f = 0 \<and> data_start_offset_bytes f = 0 \<longrightarrow> ?w = header_spec f @ data f"
      using unmasked by blast
    show "mask_value f = 1 \<longrightarrow>
               ?w = header_spec f @ gmk 4
                   @ map (\<lambda>i. data f ! i XOR gmk 4 ! (i mod 4)) [0..<length (data f)]"
      using masked by blast
  qed
next
  let ?f = "create_frame [0x48, 0x65, 0x6C, 0x6C, 0x6F] OPCODE_TEXT 1 False None None"
  have "header_fields_ok ?f" "data_msg_length_bytes ?f < 2 ^ 63" "mask_value ?f = 0"
    "\<not> length (header_spec ?f) < data_start_offset_bytes ?f"
    by (simp_all add: create_frame_def ABNF_init_def header_fields_ok_def opcode_defs)
  from format_unmasked_copy [OF this, of gmk bo]
  show "\<exists>f'. format gmk bo ?f = Inr ([0x81, 0x05, 0x48, 0x65, 0x6C, 0x6C, 0x6F], f')"
    by (simp add: create_frame_def ABNF_init_def header_spec_def opcode_defs)
next
  let ?f = "create_frame (replicate 256 0) OPCODE_BINARY 1 False None None"
  have "header_fields_ok ?f" "data_msg_length_bytes ?f < 2 ^ 63" "mask_value ?f = 0"
    "\<not> length (header_spec ?f) < data_start_offset_bytes ?f"
    by (simp_all add: create_frame_def ABNF_init_def header_fields_ok_def opcode_defs)
  from format_unmasked_copy [OF this, of gmk bo]
  show "\<exists>f'. format gmk bo ?f = Inr ([0x82, 0x7E, 0x01, 0x00] @ replicate 256 0, f')"
    by (simp add: create_frame_def ABNF_init_def header_spec_def opcode_defs big_endian_def
          upt_rec)
qed

lemma hello_masked_facts:
  "header_fields_ok (create_frame [0x48, 0x65, 0x6C, 0x6C, 0x6F] OPCODE_TEXT 1 True None None)"
  "data_msg_length_bytes (create_frame [0x48, 0x65, 0x6C, 0x6C, 0x6F] OPCODE_TEXT 1 True None None) < 2 ^ 63"
  "length (rfc_key 4) = 4"
  "data_start_offset_bytes (create_frame [0x48, 0x65, 0x6C, 0x6C, 0x6F] OPCODE_TEXT 1 True None None)
     + data_msg_length_bytes (create_frame [0x48, 0x65, 0x6C, 0x6C, 0x6F] OPCODE_TEXT 1 True None None)
   \<le> length (data (create_frame [0x48, 0x65, 0x6C, 0x6C, 0x6F] OPCODE_TEXT 1 True None None))"
  "mask_value (create_frame [0x48, 0x65, 0x6C, 0x6C, 0x6F] OPCODE_TEXT 1 True None None) = 1"
  by (simp_all add: create_frame_def ABNF_init_def header_fields_ok_def opcode_defs rfc_key_def)

text \<open>
  The theorem at the masked "Hello" frame of RFC 6455, section 5.7.
\<close>

theorem format_header_layout_witness:
  "header_fields_ok (create_frame [0x48, 0x65, 0x6C, 0x6C, 0x6F] OPCODE_TEXT 1 True None None) \<and>
   data_msg_length_bytes (create_frame [0x48, 0x65, 0x6C, 0x6C, 0x6F] OPCODE_TEXT 1 True None None) < 2 ^ 63 \<and>
   length (rfc_key 4) = 4 \<and>
   data_start_offset_bytes (create_frame [0x48, 0x65, 0x6C, 0x6C, 0x6F] OPCODE_TEXT 1 True None None)
     + data_msg_length_bytes (create_frame [0x48, 0x65, 0x6C, 0x6C, 0x6F] OPCODE_TEXT 1 True None None)
   \<le> length (data (create_frame [0x48, 0x65, 0x6C, 0x6C, 0x6F] OPCODE_TEXT 1 True None None)) \<and>
   (\<exists>f'. format rfc_key Little (create_frame [0x48, 0x65, 0x6C, 0x6C, 0x6F] OPCODE_TEXT 1 True None None)
      = Inr ([0x81, 0x85, 0x37, 0xfa, 0x21, 0x3d, 0x7f, 0x9f, 0x4d, 0x51, 0x58], f'))"
proof -
  let ?f = "create_frame [0x48, 0x65, 0x6C, 0x6C, 0x6F] OPCODE_TEXT 1 True None None"
  note h = hello_masked_facts
  from format_header_layout [where gmk = rfc_key, OF h(1-4), of Little, THEN conjunct1]
  obtain w f' where w: "format rfc_key Little ?f = Inr (w, f')"
    and m: "mask_value ?f = 1 \<longrightarrow>
               w = header_spec ?f @ rfc_key 4
                   @ map (\<lambda>i. data ?f ! i XOR rfc_key 4 ! (i mod 4)) [0..<length (data ?f)]"
    by blast
  from m h(5) have "w = header_spec ?f @ rfc_key 4
                   @ map (\<lambda>i. data ?f ! i XOR rfc_key 4 ! (i mod 4)) [0..<length (data ?f)]"
    by blast
  then have "w = [0x81, 0x85, 0x37, 0xfa, 0x21, 0x3d, 0x7f, 0x9f, 0x4d, 0x51, 0x58]"
    by (simp add: create_frame_def ABNF_init_def header_spec_def opcode_defs rfc_key_def upt_rec)
  with w have "\<exists>f'. format rfc_key Little ?f
      = Inr ([0x81, 0x85, 0x37, 0xfa, 0x21, 0x3d, 0x7f, 0x9f, 0x4d, 0x51, 0x58], f')"
    by blast
  with h(1-4) show ?thesis by blast
qed

text \<open>
  Claim C8. A head margin that is large enough for the header should receive it in place.
  The test in \<open>format\<close> is \<open>frame_header_len < data_start_offset_bytes\<close>, so a margin of
  exactly the size of the header is refused; the fall-back then puts the header in front of
  the whole buffer, margin included. For "Hello" behind a 2-byte margin the result is a new
  buffer of 9 bytes in which the two margin bytes stand between header and payload.
\<close>

theorem format_margin_of_header_size:
  "format zero_key Little
     (create_frame [0x00, 0x00, 0x48, 0x65, 0x6C, 0x6C, 0x6F] OPCODE_TEXT 1 False (Some 2) (Some 5))
   = Inr ([0x81, 0x05, 0x00, 0x00, 0x48, 0x65, 0x6C, 0x6C, 0x6F],
          \<lparr>fin = 1, rsv1 = 0, rsv2 = 0, rsv3 = 0, opcode = OPCODE_TEXT, mask_value = 0,
           data = [0x81, 0x05, 0x00, 0x00, 0x48, 0x65, 0x6C, 0x6C, 0x6F],
           data_start_offset_bytes = 0, data_msg_length_bytes = 9\<rparr>)"
proof -
  let ?f = "create_frame [0x00, 0x00, 0x48, 0x65, 0x6C, 0x6C, 0x6F] OPCODE_TEXT 1 False (Some 2) (Some 5)"
  have "header_fields_ok ?f" "data_msg_length_bytes ?f < 2 ^ 63" "mask_value ?f = 0"
    "\<not> length (header_spec ?f) < data_start_offset_bytes ?f"
    by (simp_all add: create_frame_def ABNF_init_def header_fields_ok_def opcode_defs
          length_header_spec)
  from format_unmasked_copy [OF this, of zero_key Little]
  show ?thesis
    by (simp add: create_frame_def ABNF_init_def header_spec_def opcode_defs)
qed

lemma format_too_long:
  assumes "header_fields_ok g" "\<not> data_msg_length_bytes g < 2 ^ 63"
  shows "format gmk bo g = Inl (ValueError ''data is too long'')"
proof -
  have chk: "list_ex (\<lambda>x. x \<noteq> 0 \<and> x \<noteq> 1) [fin g, rsv1 g, rsv2 g, rsv3 g] = False"
    "(opcode g \<notin> set OPCODES) = False" "(LENGTH_63 \<le> data_msg_length_bytes g) = True"
    using assms by (auto simp: header_fields_ok_def LENGTH_63_def)
  show ?thesis
    unfolding format_def by (simp only: chk if_False if_True)
qed

lemma format_masked_grows:
  assumes ok: "header_fields_ok g" and m: "mask_value g = 1"
    and r: "format gmk bo g = Inr (w, g')"
  shows "length (data g) < length w"
proof (cases "data_msg_length_bytes g < 2 ^ 63")
  case False
  from format_too_long [OF ok False, of gmk bo] r show ?thesis by simp
next
  case True
  note u = format_unfold [OF ok True, of gmk bo]
  show ?thesis
  proof (cases "ABNF_mask bo (gmk 4) (data g)")
    case (Inl e)
    then have "after_mask gmk bo g = Inl e"
      using m by (simp add: after_mask_def truthy_def get_masked_def)
    with u r show ?thesis by simp
  next
    case (Inr s)
    then have s: "length s = length (data g)"
      by (simp add: ABNF_mask_def module_mask_length)
    from Inr have "after_mask gmk bo g =
        Inr (g\<lparr>data := gmk 4 @ s, data_start_offset_bytes := 0,
               data_msg_length_bytes := length (gmk 4 @ s)\<rparr>)"
      using m by (simp add: after_mask_def truthy_def get_masked_def)
    with u r have "w = header_spec g @ gmk 4 @ s"
      by (simp add: place_header_copy)
    with s show ?thesis by (simp add: length_header_spec)
  qed
qed

text \<open>
  Claim C10. \<open>format\<close> mutates the frame it is called on. With masking enabled, the
  frame's \<open>data\<close> becomes header, mask key and masked buffer - the bytes that were
  returned - so it no longer holds the original payload, and a second call on the same
  frame, whatever key it draws, does not return the same wire bytes.
\<close>

theorem format_not_idempotent:
  assumes ok: "header_fields_ok f" and m: "mask_value f = 1"
    and len: "data_msg_length_bytes f < 2 ^ 63" and key: "length (gmk 4) = 4"
  shows "\<exists>w f'. format gmk bo f = Inr (w, f') \<and>
           data f' = header_spec f @ gmk 4
                     @ map (\<lambda>i. data f ! i XOR gmk 4 ! (i mod 4)) [0..<length (data f)] \<and>
           w = data f' \<and> data f' \<noteq> data f \<and>
           (\<forall>gmk' w' f''. format gmk' bo f' = Inr (w', f'') \<longrightarrow> w' \<noteq> w)"
proof -
  let ?w = "header_spec f @ gmk 4 @ map (\<lambda>i. data f ! i XOR gmk 4 ! (i mod 4)) [0..<length (data f)]"
  let ?f' = "f\<lparr>data := ?w, data_start_offset_bytes := 0,
               data_msg_length_bytes := length (header_spec f) + (4 + length (data f))\<rparr>"
  have r: "format gmk bo f = Inr (?w, ?f')"
    using format_masked [where gmk = gmk, OF ok len m key] .
  have ok': "header_fields_ok ?f'" "mask_value ?f' = 1"
    using ok m by (simp_all add: header_fields_ok_def)
  have d: "data ?f' = ?w" by simp
  have ne: "data ?f' \<noteq> data f"
  proof
    assume "data ?f' = data f"
    then have "length ?w = length (data f)" by simp
    then show False by (simp add: length_header_spec key)
  qed
  have again: "\<forall>gmk' w' f''. format gmk' bo ?f' = Inr (w', f'') \<longrightarrow> w' \<noteq> ?w"
  proof (intro allI impI)
    fix gmk' w' f''
    assume "format gmk' bo ?f' = Inr (w', f'')"
    from format_masked_grows [OF ok' this] have "length ?w < length w'" by simp
    then show "w' \<noteq> ?w" by auto
  qed
  show ?thesis
  proof (intro exI conjI)
    show "format gmk bo f = Inr (?w, ?f')" by (rule r)
    show "data ?f' = ?w" by (rule d)
    show "?w = data ?f'" by (rule d [symmetric])
    show "data ?f' \<noteq> data f" by (rule ne)
    show "\<forall>gmk' w' f''. format gmk' bo ?f' = Inr (w', f'') \<longrightarrow> w' \<noteq> ?w" by (rule again)
  qed
qed

text \<open>
  The theorem at the masked "Hello" frame.
\<close>

theorem format_not_idempotent_witness:
  "header_fields_ok (create_frame [0x48, 0x65, 0x6C, 0x6C, 0x6F] OPCODE_TEXT 1 True None None) \<and>
   mask_value (create_frame [0x48, 0x65, 0x6C, 0x6C, 0x6F] OPCODE_TEXT 1 True None None) = 1 \<and>
   data_msg_length_bytes (create_frame [0x48, 0x65, 0x6C, 0x6C, 0x6F] OPCODE_TEXT 1 True None None) < 2 ^ 63 \<and>
   length (rfc_key 4) = 4 \<and>
   (\<exists>w f'. format rfc_key Little (create_frame [0x48, 0x65, 0x6C, 0x6C, 0x6F] OPCODE_TEXT 1 True None None)
             = Inr (w, f') \<and>
           data f' = header_spec (create_frame [0x48, 0x65, 0x6C, 0x6C, 0x6F] OPCODE_TEXT 1 True None None)
                     @ rfc_key 4
                     @ map (\<lambda>i. data (create_frame [0x48, 0x65, 0x6C, 0x6C, 0x6F] OPCODE_TEXT 1 True None None) ! i
                                 XOR rfc_key 4 ! (i mod 4))
                         [0..<length (data (create_frame [0x48, 0x65, 0x6C, 0x6C, 0x6F] OPCODE_TEXT 1 True None None))] \<and>
           w = data f' \<and>
           data f' \<noteq> data (create_frame [0x48, 0x65, 0x6C, 0x6C, 0x6F] OPCODE_TEXT 1 True None None) \<and>
           map_sum id fst (format rfc_key Little f') \<noteq> Inr w)"
proof -
  let ?f = "create_frame [0x48, 0x65, 0x6C, 0x6C, 0x6F] OPCODE_TEXT 1 True None None"
  note h = hello_masked_facts
  from format_not_idempotent [where gmk = rfc_key, OF h(1) h(5) h(2) h(3), of Little]
  obtain w f' where all: "format rfc_key Little ?f = Inr (w, f') \<and>
           data f' = header_spec ?f @ rfc_key 4
                     @ map (\<lambda>i. data ?f ! i XOR rfc_key 4 ! (i mod 4)) [0..<length (data ?f)] \<and>
           w = data f' \<and> data f' \<noteq> data ?f \<and>
           (\<forall>gmk' w' f''. format gmk' Little f' = Inr (w', f'') \<longrightarrow> w' \<noteq> w)"
    by (elim exE) (erule that)
  note a = all [THEN conjunct2, THEN conjunct2, THEN conjunct2, THEN conjunct2,
                THEN spec [of _ rfc_key]]
  have again: "map_sum id fst (format rfc_key Little f') \<noteq> Inr w"
  proof (cases "format rfc_key Little f'")
    case (Inl e)
    then show ?thesis by simp
  next
    case (Inr p)
    obtain w' f'' where p: "p = (w', f'')" by (cases p)
    with Inr a have "w' \<noteq> w" by simp
    with Inr p show ?thesis by simp
  qed
  have "format rfc_key Little ?f = Inr (w, f') \<and>
           data f' = header_spec ?f @ rfc_key 4
                     @ map (\<lambda>i. data ?f ! i XOR rfc_key 4 ! (i mod 4)) [0..<length (data ?f)] \<and>
           w = data f' \<and> data f' \<noteq> data ?f \<and>
           map_sum id fst (format rfc_key Little f') \<noteq> Inr w"
    using all [THEN conjunct1] all [THEN conjunct2, THEN conjunct1]
      all [THEN conjunct2, THEN conjunct2, THEN conjunct1]
      all [THEN conjunct2, THEN conjunct2, THEN conjunct2, THEN conjunct1] again
    by (intro conjI)
  then have "\<exists>w f'. format rfc_key Little ?f = Inr (w, f') \<and>
           data f' = header_spec ?f @ rfc_key 4
                     @ map (\<lambda>i. data ?f ! i XOR rfc_key 4 ! (i mod 4)) [0..<length (data ?f)] \<and>
           w = data f' \<and> data f' \<noteq> data ?f \<and>
           map_sum id fst (format rfc_key Little f') \<noteq> Inr w"
    by (intro exI)
  with h(1) h(5) h(2) h(3) show ?thesis by (intro conjI)
qed

section \<open>Reading exactly \<open>n\<close> bytes\<close>

lemma write_view_fit:
  assumes "length chunk \<le> k"
  shows "write_view buffer start k chunk = take start buffer @ chunk @ drop (start + length chunk) buffer"
  using assms by (simp add: write_view_def min_def)

lemma read_into_Nil:
  "events src = [] \<Longrightarrow> read_into src k = (Inr [], src\<lparr>calls := calls src @ [(k, 0)]\<rparr>)"
  by (simp add: read_into_def)

lemma read_into_Fail:
  "events src = Fail # rest \<Longrightarrow>
   read_into src k = (Inl TransportError, src\<lparr>events := rest, calls := calls src @ [(k, 0)]\<rparr>)"
  by (simp add: read_into_def)

lemma read_into_Data:
  "events src = Data bs # rest \<Longrightarrow>
   read_into src k =
     (Inr (take k bs),
      src\<lparr>events := (if length bs \<le> k then rest else Data (drop k bs) # rest),
          calls := calls src @ [(k, min k (length bs))]\<rparr>)"
  by (simp add: read_into_def)

text \<open>The loop invariant: the buffer holds what was received, followed by zeros.\<close>

lemma recv_loop_delivers:
  assumes "shortage \<le> length (avail (events src))"
  shows "\<exists>src'. recv_loop read_into shortage (got @ replicate shortage 0) (length got) src
                 = Some (Inr (got @ take shortage (avail (events src))), src')
               \<and> avail (events src') = drop shortage (avail (events src))
               \<and> hits_fail (events src') = hits_fail (events src)"
  using assms
proof (induction "length (events src) + shortage" arbitrary: src shortage got rule: less_induct)
  case less
  show ?case
  proof (cases "shortage = 0")
    case True
    then show ?thesis by (subst recv_loop.simps) simp
  next
    case False
    then have pos: "0 < shortage" by simp
    let ?k = "min 131072 shortage"
    have k: "0 < ?k" "?k \<le> shortage" using pos by simp_all
    from less.prems False obtain ev rest where ev: "events src = ev # rest"
      by (cases "events src") auto
    show ?thesis
    proof (cases ev)
      case Fail
      with ev less.prems False show ?thesis by simp
    next
      case (Data bs)
      define k where "k = min 131072 shortage"
      define chunk where "chunk = take k bs"
      define src1 where
        "src1 = src\<lparr>events := (if length bs \<le> k then rest else Data (drop k bs) # rest),
                      calls := calls src @ [(k, min k (length bs))]\<rparr>"
      define rem where "rem = shortage - length chunk"
      have kpos: "0 < k" "k \<le> shortage" using pos by (simp_all add: k_def)
      have r: "read_into src k = (Inr chunk, src1)"
        using ev Data by (simp add: read_into_Data chunk_def src1_def)
      have cl: "length chunk \<le> k" by (simp add: chunk_def)
      then have cl2: "length chunk \<le> shortage" using kpos by simp
      have av: "avail (events src) = chunk @ avail (events src1)"
        using ev Data by (simp add: chunk_def src1_def)
      have hf: "hits_fail (events src1) = hits_fail (events src)"
        using ev Data by (simp add: src1_def)
      have "length (events src1) \<le> length (events src)"
        using ev by (simp add: src1_def)
      moreover have "length (events src1) < length (events src) \<or> 0 < length chunk"
        using ev kpos by (cases "length bs \<le> k") (simp_all add: src1_def chunk_def)
      ultimately have meas: "length (events src1) + rem < length (events src) + shortage"
        unfolding rem_def using cl2 pos by linarith
      have "shortage \<le> length chunk + length (avail (events src1))"
        using less.prems by (simp add: av)
      then have enough: "rem \<le> length (avail (events src1))"
        by (simp add: rem_def)
      have buf: "write_view (got @ replicate shortage 0) (length got) k chunk
                  = (got @ chunk) @ replicate rem 0"
      proof -
        have "replicate shortage (0::byte) = replicate (length chunk) 0 @ replicate rem 0"
          using cl2 by (simp add: rem_def replicate_add [symmetric])
        then show ?thesis
          by (simp add: write_view_fit [OF cl])
      qed
      from less.hyps [OF meas enough, of "got @ chunk"]
      obtain src2 where
        rec: "recv_loop read_into rem ((got @ chunk) @ replicate rem 0) (length (got @ chunk)) src1
              = Some (Inr ((got @ chunk) @ take rem (avail (events src1))), src2)"
        and av2: "avail (events src2) = drop rem (avail (events src1))"
        and hf2: "hits_fail (events src2) = hits_fail (events src1)"
        by blast
      have t: "got @ take shortage (avail (events src))
                = (got @ chunk) @ take rem (avail (events src1))"
        using cl2 by (simp add: av rem_def)
      have d: "drop shortage (avail (events src)) = drop rem (avail (events src1))"
        using cl2 by (simp add: av rem_def)
      have lg: "length got + length chunk = length (got @ chunk)" by simp
      have "recv_loop read_into shortage (got @ replicate shortage 0) (length got) src
              = Some (Inr (got @ take shortage (avail (events src))), src2)"
        apply (subst recv_loop.simps)
        apply (simp only: pos if_True Let_def k_def [symmetric] r prod.case sum.case buf
                 rem_def [symmetric] lg t)
        apply (rule rec)
        done
      with av2 hf2 d hf show ?thesis by (intro exI [of _ src2]) simp
    qed
  qed
qed

lemma recv_loop_stuck:
  assumes "recv_loop read_into shortage buffer off s = Some y"
  shows "\<not> (events s = [] \<and> 0 < shortage)"
proof -
  have "read_into = read_into \<longrightarrow> \<not> (events s = [] \<and> 0 < shortage)"
  proof (rule recv_loop.raw_induct
      [where P = "\<lambda>ri shortage buffer off s y. ri = read_into \<longrightarrow> \<not> (events s = [] \<and> 0 < shortage)"])
    show "recv_loop read_into shortage buffer off s = Some y" by (rule assms)
  next
    fix rl and ri :: "source \<Rightarrow> nat \<Rightarrow> (error + bytes) \<times> source"
      and shortage buffer off s and y :: "(error + bytes) \<times> source"
    assume IH: "\<And>ri shortage buffer off s y. rl ri shortage buffer off s = Some y \<Longrightarrow>
                  ri = read_into \<longrightarrow> \<not> (events s = [] \<and> 0 < shortage)"
      and body: "(if 0 < shortage
      then let this_read_size_bytes = min 131072 shortage
           in case ri s this_read_size_bytes of
              (Inl e, s') \<Rightarrow> Some (Inl e, s')
              | (Inr chunk, s') \<Rightarrow>
                  let bytes_read = length chunk
                  in rl ri (shortage - bytes_read)
                      (write_view buffer off this_read_size_bytes chunk)
                      (off + bytes_read) s'
      else Some (Inr buffer, s)) = Some y"
    show "ri = read_into \<longrightarrow> \<not> (events s = [] \<and> 0 < shortage)"
    proof (intro impI notI)
      assume ri: "ri = read_into" and st: "events s = [] \<and> 0 < shortage"
      then have r: "read_into s (min 131072 shortage)
          = (Inr [], s\<lparr>calls := calls s @ [(min 131072 shortage, 0)]\<rparr>)"
        by (simp add: read_into_Nil)
      from body ri st r
      have "rl read_into shortage (write_view buffer off (min 131072 shortage) []) off
              (s\<lparr>calls := calls s @ [(min 131072 shortage, 0)]\<rparr>) = Some y"
        by (simp add: Let_def)
      from IH [OF this] st show False by simp
    qed
  qed
  then show ?thesis by simp
qed

lemma recv_loop_eof:
  assumes "events s = []" "0 < shortage"
  shows "recv_loop read_into shortage buffer off s = None"
proof (cases "recv_loop read_into shortage buffer off s")
  case None
  then show ?thesis .
next
  case (Some y)
  from recv_loop_stuck [OF this] assms show ?thesis by simp
qed

lemma read_into_calls:
  assumes "read_into s k = (res, s1)"
  shows "calls s1 = calls s @ [(k, case res of Inl e \<Rightarrow> 0 | Inr chunk \<Rightarrow> length chunk)]"
proof (cases "events s")
  case Nil
  with assms show ?thesis by (auto simp: read_into_Nil)
next
  case (Cons ev rest)
  show ?thesis
  proof (cases ev)
    case Fail
    with Cons assms show ?thesis by (auto simp: read_into_Fail)
  next
    case (Data bs)
    with Cons assms show ?thesis by (auto simp: read_into_Data min.commute)
  qed
qed

lemma recv_loop_requests:
  assumes "recv_loop read_into shortage buffer off s = Some y"
  shows "\<exists>new. calls (snd y) = calls s @ new \<and> requests_ok shortage new"
proof -
  have "read_into = read_into \<longrightarrow> (\<exists>new. calls (snd y) = calls s @ new \<and> requests_ok shortage new)"
  proof (rule recv_loop.raw_induct
      [where P = "\<lambda>ri shortage buffer off s y. ri = read_into \<longrightarrow>
                    (\<exists>new. calls (snd y) = calls s @ new \<and> requests_ok shortage new)"])
    show "recv_loop read_into shortage buffer off s = Some y" by (rule assms)
  next
    fix rl and ri :: "source \<Rightarrow> nat \<Rightarrow> (error + bytes) \<times> source"
      and shortage buffer off s and y :: "(error + bytes) \<times> source"
    assume IH: "\<And>ri shortage buffer off s y. rl ri shortage buffer off s = Some y \<Longrightarrow>
                  ri = read_into \<longrightarrow>
                    (\<exists>new. calls (snd y) = calls s @ new \<and> requests_ok shortage new)"
      and body: "(if 0 < shortage
      then let this_read_size_bytes = min 131072 shortage
           in case ri s this_read_size_bytes of
              (Inl e, s') \<Rightarrow> Some (Inl e, s')
              | (Inr chunk, s') \<Rightarrow>
                  let bytes_read = length chunk
                  in rl ri (shortage - bytes_read)
                      (write_view buffer off this_read_size_bytes chunk)
                      (off + bytes_read) s'
      else Some (Inr buffer, s)) = Some y"
    show "ri = read_into \<longrightarrow> (\<exists>new. calls (snd y) = calls s @ new \<and> requests_ok shortage new)"
    proof
      assume ri: "ri = read_into"
      show "\<exists>new. calls (snd y) = calls s @ new \<and> requests_ok shortage new"
      proof (cases "0 < shortage")
        case False
        with body have "y = (Inr buffer, s)" by simp
        then have "calls (snd y) = calls s @ [] \<and> requests_ok shortage []" by simp
        then show ?thesis by blast
      next
        case True
        define k where "k = min 131072 shortage"
        obtain res s1 where r: "read_into s k = (res, s1)" by (cases "read_into s k")
        note c1 = read_into_calls [OF r]
        show ?thesis
        proof (cases res)
          case (Inl e)
          with body True r ri have "y = (Inl e, s1)"
            by (simp add: Let_def k_def)
          with c1 Inl have "calls (snd y) = calls s @ [(k, 0)] \<and> requests_ok shortage [(k, 0)]"
            by (simp add: k_def)
          then show ?thesis by blast
        next
          case (Inr chunk)
          with body True r ri
          have "rl read_into (shortage - length chunk) (write_view buffer off k chunk)
                  (off + length chunk) s1 = Some y"
            by (simp add: Let_def k_def)
          from IH [OF this] obtain new where
            n: "calls (snd y) = calls s1 @ new" "requests_ok (shortage - length chunk) new" by blast
          from n c1 Inr
          have "calls (snd y) = calls s @ ((k, length chunk) # new) \<and>
                requests_ok shortage ((k, length chunk) # new)"
            by (simp add: k_def)
          then show ?thesis by blast
        qed
      qed
    qed
  qed
  then show ?thesis by simp
qed


lemma recv_loop_short:
  assumes "length (avail (events src)) < shortage"
  shows "if hits_fail (events src)
         then \<exists>src'. recv_loop read_into shortage buffer off src = Some (Inl TransportError, src')
         else recv_loop read_into shortage buffer off src = None"
  using assms
proof (induction "length (events src) + shortage" arbitrary: src shortage buffer off
        rule: less_induct)
  case less
  from less.prems have pos: "0 < shortage" by simp
  define k where "k = min 131072 shortage"
  have kpos: "0 < k" using pos by (simp add: k_def)
  show ?case
  proof (cases "events src")
    case Nil
    then show ?thesis using recv_loop_eof [OF Nil pos] by simp
  next
    case (Cons ev rest)
    show ?thesis
    proof (cases ev)
      case Fail
      with Cons have "read_into src k
          = (Inl TransportError, src\<lparr>events := rest, calls := calls src @ [(k, 0)]\<rparr>)"
        by (simp add: read_into_Fail)
      then have "recv_loop read_into shortage buffer off src
         = Some (Inl TransportError, src\<lparr>events := rest, calls := calls src @ [(k, 0)]\<rparr>)"
        using pos by (subst recv_loop.simps) (simp add: Let_def k_def)
      with Cons Fail show ?thesis by auto
    next
      case (Data bs)
      define chunk where "chunk = take k bs"
      define src1 where
        "src1 = src\<lparr>events := (if length bs \<le> k then rest else Data (drop k bs) # rest),
                      calls := calls src @ [(k, min k (length bs))]\<rparr>"
      define rem where "rem = shortage - length chunk"
      have r: "read_into src k = (Inr chunk, src1)"
        using Cons Data by (simp add: read_into_Data chunk_def src1_def)
      have av: "avail (events src) = chunk @ avail (events src1)"
        using Cons Data by (simp add: chunk_def src1_def)
      have hf: "hits_fail (events src1) = hits_fail (events src)"
        using Cons Data by (simp add: src1_def)
      have "length (events src1) \<le> length (events src)"
        using Cons by (simp add: src1_def)
      moreover have "length (events src1) < length (events src) \<or> 0 < length chunk"
        using Cons kpos by (cases "length bs \<le> k") (simp_all add: src1_def chunk_def)
      moreover have cl: "length chunk + length (avail (events src1)) < shortage"
        using less.prems by (simp add: av)
      ultimately have meas: "length (events src1) + rem < length (events src) + shortage"
        unfolding rem_def by linarith
      from cl have short: "length (avail (events src1)) < rem"
        unfolding rem_def by linarith
      note IH = less.hyps [OF meas short, of "write_view buffer off k chunk" "off + length chunk"]
      have step: "recv_loop read_into shortage buffer off src
              = recv_loop read_into rem (write_view buffer off k chunk) (off + length chunk) src1"
        by (subst recv_loop.simps)
           (simp only: pos if_True Let_def k_def [symmetric] r prod.case sum.case
              rem_def [symmetric])
      from IH show ?thesis
        unfolding step hf .
    qed
  qed
qed

lemma recv_strict_delivers:
  assumes "n \<le> length (avail (events src))"
  shows "\<exists>src'. recv_strict read_into n src = Some (Inr (take n (avail (events src))), src')
               \<and> avail (events src') = drop n (avail (events src))
               \<and> hits_fail (events src') = hits_fail (events src)"
  using recv_loop_delivers [OF assms, of "[]"] by (simp add: recv_strict_def)

text \<open>
  Claim C7, amended. For every requested size \<open>n\<close> and every byte source:
  whenever \<open>recv_strict(n)\<close> returns or raises, each read it issued asked for exactly
  \<open>min(131072, remaining)\<close> bytes; it returns exactly \<open>n\<close> bytes - the next \<open>n\<close> bytes of
  the stream - when the source delivers them; when a read raises before \<open>n\<close> bytes have
  been delivered, the error of the source reaches the caller (this is how a
  connection-closed error surfaces); and when the stream ends before \<open>n\<close> bytes have been
  delivered and the source signals this by reads that return 0 bytes, \<open>recv_strict\<close>
  reads again and again and never returns.
\<close>

theorem recv_strict_behaviour:
  "(\<forall>r src'. recv_strict read_into n src = Some (r, src') \<longrightarrow>
      (\<exists>new. calls src' = calls src @ new \<and> requests_ok n new)) \<and>
   (n \<le> length (avail (events src)) \<longrightarrow>
      (\<exists>src'. recv_strict read_into n src = Some (Inr (take n (avail (events src))), src') \<and>
             length (take n (avail (events src))) = n \<and>
             avail (events src') = drop n (avail (events src)))) \<and>
   (length (avail (events src)) < n \<and> hits_fail (events src) \<longrightarrow>
      (\<exists>src'. recv_strict read_into n src = Some (Inl TransportError, src'))) \<and>
   (length (avail (events src)) < n \<and> \<not> hits_fail (events src) \<longrightarrow>
      recv_strict read_into n src = None)"
proof (intro conjI allI impI)
  fix r src'
  assume "recv_strict read_into n src = Some (r, src')"
  then have "recv_loop read_into n (replicate n 0) 0 src = Some (r, src')"
    by (simp add: recv_strict_def)
  from recv_loop_requests [OF this]
  show "\<exists>new. calls src' = calls src @ new \<and> requests_ok n new" by simp
next
  assume a: "n \<le> length (avail (events src))"
  from recv_strict_delivers [OF a] a
  show "\<exists>src'. recv_strict read_into n src = Some (Inr (take n (avail (events src))), src') \<and>
             length (take n (avail (events src))) = n \<and>
             avail (events src') = drop n (avail (events src))"
    by auto
next
  assume a: "length (avail (events src)) < n \<and> hits_fail (events src)"
  with recv_loop_short [of src n "replicate n 0" 0]
  show "\<exists>src'. recv_strict read_into n src = Some (Inl TransportError, src')"
    by (simp add: recv_strict_def)
next
  assume a: "length (avail (events src)) < n \<and> \<not> hits_fail (events src)"
  with recv_loop_short [of src n "replicate n 0" 0]
  show "recv_strict read_into n src = None"
    by (simp add: recv_strict_def)
qed

text \<open>
  Claim C7 as stated fails on a source at the end of its stream that answers every read
  with 0 bytes: \<open>recv_strict(1)\<close> raises no connection-closed error; it does not terminate.
\<close>

theorem recv_strict_end_of_stream:
  "recv_strict read_into 1 \<lparr>events = [], calls = []\<rparr> = None"
  by (simp add: recv_strict_def recv_loop_eof)

text \<open>
  The theorem at three concrete sources: one that delivers 3 of its 4 bytes in two reads,
  one that fails after 1 byte, and one that ends after 1 byte.
\<close>

theorem recv_strict_behaviour_witness:
  "(\<exists>src'. recv_strict read_into 3 \<lparr>events = [Data [1, 2], Data [3, 4]], calls = []\<rparr>
             = Some (Inr [1, 2, 3], src') \<and> avail (events src') = [4] \<and>
           requests_ok 3 (calls src')) \<and>
   (\<exists>src'. recv_strict read_into 3 \<lparr>events = [Data [1], Fail], calls = []\<rparr>
             = Some (Inl TransportError, src')) \<and>
   recv_strict read_into 3 \<lparr>events = [Data [1]], calls = []\<rparr> = None"
proof -
  note a = recv_strict_behaviour [of 3 "\<lparr>events = [Data [1, 2], Data [3, 4]], calls = []\<rparr>"]
  note b = recv_strict_behaviour [of 3 "\<lparr>events = [Data [1], Fail], calls = []\<rparr>"]
  note c = recv_strict_behaviour [of 3 "\<lparr>events = [Data [1]], calls = []\<rparr>"]
  from a [THEN conjunct2, THEN conjunct1]
  obtain src' where r: "recv_strict read_into 3 \<lparr>events = [Data [1, 2], Data [3, 4]], calls = []\<rparr>
             = Some (Inr [1, 2, 3], src')" and v: "avail (events src') = [4]"
    by auto
  from a [THEN conjunct1, THEN spec, THEN spec, THEN mp, OF r]
  have "requests_ok 3 (calls src')" by simp
  with r v
  have 1: "\<exists>src'. recv_strict read_into 3 \<lparr>events = [Data [1, 2], Data [3, 4]], calls = []\<rparr>
             = Some (Inr [1, 2, 3], src') \<and> avail (events src') = [4] \<and>
           requests_ok 3 (calls src')"
    by blast
  from b [THEN conjunct2, THEN conjunct2, THEN conjunct1]
  have 2: "\<exists>src'. recv_strict read_into 3 \<lparr>events = [Data [1], Fail], calls = []\<rparr>
             = Some (Inl TransportError, src')"
    by simp
  from c [THEN conjunct2, THEN conjunct2, THEN conjunct2]
  have 3: "recv_strict read_into 3 \<lparr>events = [Data [1]], calls = []\<rparr> = None"
    by simp
  from 1 2 3 show ?thesis by (intro conjI)
qed

section \<open>Decoding what the encoder wrote\<close>

lemma from_to_bytes_little:
  "0 \<le> x \<Longrightarrow> from_bytes_little (to_bytes_little n x) = x mod 256 ^ n"
proof (induction n arbitrary: x)
  case 0
  then show ?case by simp
next
  case (Suc n)
  have "0 \<le> x div 256" using Suc.prems by simp
  from Suc.IH [OF this]
  have "from_bytes_little (to_bytes_little n (x div 256)) = x div 256 mod 256 ^ n" .
  moreover have "uint (word_of_int (x mod 256) :: byte) = x mod 256"
    by (simp add: uint_word_of_int take_bit_eq_mod)
  moreover have "x mod 256 + 256 * (x div 256 mod 256 ^ n) = x mod (256 * 256 ^ n)"
    by (simp add: zmod_zmult2_eq)
  ultimately show ?case by simp
qed

lemma unpack_H_big_endian: "L < 2 ^ 16 \<Longrightarrow> unpack_H (big_endian 2 L) = Inr L"
proof -
  assume a: "L < 2 ^ 16"
  have "from_bytes_little (rev (big_endian 2 L)) = int L mod 256 ^ 2"
    by (simp add: pack_big_endian [symmetric] from_to_bytes_little)
  moreover have "int L mod 256 ^ 2 = int L" using a by simp
  moreover have "length (big_endian 2 L) = 2" by (simp add: big_endian_def)
  ultimately show ?thesis by (simp add: unpack_H_def)
qed

lemma unpack_Q_big_endian: "L < 2 ^ 64 \<Longrightarrow> unpack_Q (big_endian 8 L) = Inr L"
proof -
  assume a: "L < 2 ^ 64"
  have "from_bytes_little (rev (big_endian 8 L)) = int L mod 256 ^ 8"
    by (simp add: pack_big_endian [symmetric] from_to_bytes_little)
  moreover have "int L mod 256 ^ 8 = int L" using a by simp
  moreover have "length (big_endian 8 L) = 8" by (simp add: big_endian_def)
  ultimately show ?thesis by (simp add: unpack_Q_def)
qed

lemma header_byte_bits:
  assumes "0 \<le> l" "l < 128"
  shows "uint (word_of_int (push_bit 7 1 OR l) :: byte) AND 0x7F = l"
    and "drop_bit 7 (uint (word_of_int (push_bit 7 1 OR l) :: byte)) AND 1 = 1"
proof -
  have r: "0 \<le> push_bit 7 (1::int) OR l" "push_bit 7 (1::int) OR l < 256"
    using or_byte_range [of "push_bit 7 1" l] assms by simp_all
  then have u: "uint (word_of_int (push_bit 7 1 OR l) :: byte) = push_bit 7 1 OR l"
    by (simp add: uint_word_of_int take_bit_eq_mod)
  have t: "take_bit 7 l = l" using assms by (simp add: take_bit_int_eq_self)
  have m: "(0x7F::int) = mask 7" by (simp add: mask_eq_exp_minus_1)
  have "(push_bit 7 1 OR l) AND mask 7 = take_bit 7 (push_bit 7 1 OR l)"
    by (simp only: take_bit_eq_mask)
  also have "\<dots> = take_bit 7 (push_bit 7 1) OR take_bit 7 l" by (simp only: take_bit_or)
  also have "\<dots> = l" by (simp add: t take_bit_push_bit)
  finally have "(push_bit 7 1 OR l) AND 0x7F = l" by (simp only: m)
  then show "uint (word_of_int (push_bit 7 1 OR l) :: byte) AND 0x7F = l" by (simp only: u)
  have "drop_bit 7 l = 0" using assms by (simp add: drop_bit_eq_div)
  then have "drop_bit 7 (push_bit 7 1 OR l) = (1::int)"
    by (simp add: drop_bit_push_bit)
  then show "drop_bit 7 (uint (word_of_int (push_bit 7 1 OR l) :: byte)) AND 1 = 1"
    by (simp only: u) simp
qed

lemma bind_io_simps [simp]:
  "bind_io None f = None"
  "bind_io (Some (Inl e, st)) f = Some (Inl e, st)"
  "bind_io (Some (Inr x, st)) f = f x st"
  by (simp_all add: bind_io_def)

lemma recv_strict_fb_delivers:
  assumes "recv_into fb = read_into" "avail (events src) = xs @ ys" "n = length xs"
  shows "\<exists>src'. recv_strict_fb n (fb, src) = Some (Inr xs, fb, src') \<and> avail (events src') = ys"
proof -
  have "n \<le> length (avail (events src))" using assms by simp
  from recv_strict_delivers [OF this] assms show ?thesis
    by (auto simp: recv_strict_fb_def)
qed

lemma recv_header_ok:
  assumes "recv_into fb = read_into" "avail (events src) = b0 # b1 # ys"
  shows "\<exists>src'. recv_header (fb, src) =
            Some (Inr (),
                  fb\<lparr>header := Some (drop_bit 7 (uint b0) AND 1, drop_bit 6 (uint b0) AND 1,
                                      drop_bit 5 (uint b0) AND 1, drop_bit 4 (uint b0) AND 1,
                                      uint b0 AND 0xF, drop_bit 7 (uint b1) AND 1,
                                      uint b1 AND 0x7F)\<rparr>,
                  src')
          \<and> avail (events src') = ys"
proof -
  from recv_strict_fb_delivers [OF assms(1), of src "[b0, b1]" ys 2] assms(2)
  obtain src' where "recv_strict_fb 2 (fb, src) = Some (Inr [b0, b1], fb, src')"
    "avail (events src') = ys" by auto
  then show ?thesis by (auto simp: recv_header_def Let_def)
qed

lemma recv_length_short:
  assumes "header fb = Some (a, b, c, d, e, m, bits)" "bits AND 0x7F \<noteq> 0x7E" "bits AND 0x7F \<noteq> 0x7F"
  shows "recv_length (fb, src) = Some (Inr (), fb\<lparr>length_fb := Some (nat (bits AND 0x7F))\<rparr>, src)"
  using assms by (simp add: recv_length_def Let_def)

lemma recv_length_16:
  assumes "recv_into fb = read_into" "header fb = Some (a, b, c, d, e, m, bits)"
    "bits AND 0x7F = 0x7E" "avail (events src) = big_endian 2 L @ ys" "L < 2 ^ 16"
  shows "\<exists>src'. recv_length (fb, src) = Some (Inr (), fb\<lparr>length_fb := Some L\<rparr>, src')
               \<and> avail (events src') = ys"
proof -
  have "length (big_endian 2 L) = 2" by (simp add: big_endian_def)
  from recv_strict_fb_delivers [OF assms(1,4) this [symmetric]]
  obtain src' where "recv_strict_fb 2 (fb, src) = Some (Inr (big_endian 2 L), fb, src')"
    "avail (events src') = ys" by auto
  then show ?thesis
    using assms(2,3,5) by (auto simp: recv_length_def Let_def unpack_H_big_endian)
qed

lemma recv_length_64:
  assumes "recv_into fb = read_into" "header fb = Some (a, b, c, d, e, m, bits)"
    "bits AND 0x7F = 0x7F" "avail (events src) = big_endian 8 L @ ys" "L < 2 ^ 64"
  shows "\<exists>src'. recv_length (fb, src) = Some (Inr (), fb\<lparr>length_fb := Some L\<rparr>, src')
               \<and> avail (events src') = ys"
proof -
  have "length (big_endian 8 L) = 8" by (simp add: big_endian_def)
  from recv_strict_fb_delivers [OF assms(1,4) this [symmetric]]
  obtain src' where "recv_strict_fb 8 (fb, src) = Some (Inr (big_endian 8 L), fb, src')"
    "avail (events src') = ys" by auto
  then show ?thesis
    using assms(2,3,5) by (auto simp: recv_length_def Let_def unpack_Q_big_endian)
qed

lemma recv_mask_ok:
  assumes "recv_into fb = read_into" "header fb = Some (a, b, c, d, e, 1, bits)"
    "avail (events src) = key @ ys" "length key = 4"
  shows "\<exists>src'. recv_mask (fb, src) = Some (Inr (), fb\<lparr>mask_value_fb := Some key\<rparr>, src')
               \<and> avail (events src') = ys"
proof -
  from recv_strict_fb_delivers [OF assms(1,3) assms(4) [symmetric]]
  obtain src' where "recv_strict_fb 4 (fb, src) = Some (Inr key, fb, src')"
    "avail (events src') = ys" by auto
  then show ?thesis
    using assms(2) by (auto simp: recv_mask_def has_mask_def truthy_def)
qed

lemma recv_frame_resume_header:
  assumes "header fb = None" "recv_header (fb, src) = Some (Inr (), fb1, src1)"
    "header fb1 = Some h"
  shows "recv_frame bo (fb, src) = recv_frame bo (fb1, src1)"
  using assms by (simp add: recv_frame_def has_received_header_def)

lemma recv_frame_resume_length:
  assumes "header fb = Some h" "length_fb fb = None"
    "recv_length (fb, src) = Some (Inr (), fb1, src1)"
    "header fb1 = Some h" "length_fb fb1 = Some L"
  shows "recv_frame bo (fb, src) = recv_frame bo (fb1, src1)"
  using assms
  by (cases h) (simp add: recv_frame_def has_received_header_def has_received_length_def)

lemma recv_frame_resume_mask:
  assumes "header fb = Some h" "length_fb fb = Some L" "mask_value_fb fb = None"
    "recv_mask (fb, src) = Some (Inr (), fb1, src1)"
    "header fb1 = Some h" "length_fb fb1 = Some L" "mask_value_fb fb1 = Some key"
  shows "recv_frame bo (fb, src) = recv_frame bo (fb1, src1)"
  using assms
  by (cases h) (simp add: recv_frame_def has_received_header_def has_received_length_def
        has_received_mask_def)

lemma recv_frame_payload:
  assumes "header fb = Some (fin', r1, r2, r3, op', 1, bits)" "length_fb fb = Some L"
    "mask_value_fb fb = Some key"
    "recv_strict_fb L (fb, src) = Some (Inr masked, fb, src')"
    "ABNF_mask bo key masked = Inr payload"
    "validate (ABNF_init fin' r1 r2 r3 op' 1 payload None None) (skip_utf8_validation fb) = Inr ()"
  shows "recv_frame bo (fb, src)
           = Some (Inr (ABNF_init fin' r1 r2 r3 op' 1 payload None None), clear fb, src')"
  using assms
  by (simp add: recv_frame_def has_received_header_def has_received_length_def
        has_received_mask_def truthy_def Let_def clear_def)

lemma unmask_masked:
  assumes "length key = 4"
  shows "ABNF_mask bo key (map (\<lambda>i. payload ! i XOR key ! (i mod 4)) [0..<length payload])
           = Inr payload"
proof -
  let ?Q = "map (\<lambda>i. payload ! i XOR key ! (i mod 4)) [0..<length payload]"
  have "map (\<lambda>i. ?Q ! i XOR key ! (i mod 4)) [0..<length ?Q] = payload"
    by (rule nth_equalityI) (simp_all add: xor.assoc)
  then show ?thesis
    using assms by (simp add: ABNF_mask_def module_mask_eq del: length_map map_map)
qed

lemma and_7F_small: "0 \<le> l \<Longrightarrow> l < 128 \<Longrightarrow> l AND 0x7F = (l::int)"
proof -
  assume a: "0 \<le> l" "l < 128"
  have "(0x7F::int) = mask 7" by (simp add: mask_eq_exp_minus_1)
  then have "l AND 0x7F = take_bit 7 l" by (simp only: take_bit_eq_mask)
  also have "\<dots> = l" using a by (simp add: take_bit_int_eq_self)
  finally show ?thesis .
qed

lemma first_byte_bits:
  assumes "op = OPCODE_TEXT \<or> op = OPCODE_BINARY"
  defines "b0 \<equiv> word_of_int (push_bit 7 1 OR push_bit 6 0 OR push_bit 5 0 OR push_bit 4 0 OR op) :: byte"
  shows "drop_bit 7 (uint b0) AND 1 = 1" "drop_bit 6 (uint b0) AND 1 = 0"
    "drop_bit 5 (uint b0) AND 1 = 0" "drop_bit 4 (uint b0) AND 1 = 0" "uint b0 AND 0xF = op"
  using assms(1) unfolding b0_def by (auto simp: opcode_defs)

lemma recv_frame_of_masked_wire:
  assumes ri: "recv_into fb = read_into"
    and clr: "header fb = None" "length_fb fb = None" "mask_value_fb fb = None"
    and op: "op = OPCODE_TEXT \<or> op = OPCODE_BINARY"
    and L: "length payload < 2 ^ 63" and k: "length key = 4"
    and av: "avail (events src) =
               header_spec (create_frame payload op 1 True None None) @ key
               @ map (\<lambda>i. payload ! i XOR key ! (i mod 4)) [0..<length payload] @ rest"
  shows "\<exists>src'. recv_frame bo (fb, src)
                  = Some (Inr (ABNF_init 1 0 0 0 op 1 payload None None), fb, src')
               \<and> avail (events src') = rest"
proof -
  define n where "n = length payload"
  define masked where "masked = map (\<lambda>i. payload ! i XOR key ! (i mod 4)) [0..<length payload]"
  define b0 :: byte where
    "b0 = word_of_int (push_bit 7 1 OR push_bit 6 0 OR push_bit 5 0 OR push_bit 4 0 OR op)"
  define lf :: int where "lf = (if n < 126 then int n else if n < 2 ^ 16 then 126 else 127)"
  define b1 :: byte where "b1 = word_of_int (push_bit 7 1 OR lf)"
  define ext where
    "ext = (if n < 126 then [] else if n < 2 ^ 16 then big_endian 2 n else big_endian 8 n)"
  define h where "h = (1::int, 0::int, 0::int, 0::int, op, 1::int, lf)"
  define fb1 where "fb1 = fb\<lparr>header := Some h\<rparr>"
  define fb2 where "fb2 = fb1\<lparr>length_fb := Some n\<rparr>"
  define fb3 where "fb3 = fb2\<lparr>mask_value_fb := Some key\<rparr>"
  have hs: "header_spec (create_frame payload op 1 True None None) = b0 # b1 # ext"
    by (simp add: header_spec_def create_frame_def ABNF_init_def Let_def b0_def b1_def lf_def
          ext_def n_def)
  have lfr: "0 \<le> lf" "lf < 128" by (simp_all add: lf_def)
  have hdr: "(drop_bit 7 (uint b0) AND 1, drop_bit 6 (uint b0) AND 1,
              drop_bit 5 (uint b0) AND 1, drop_bit 4 (uint b0) AND 1,
              uint b0 AND 0xF, drop_bit 7 (uint b1) AND 1, uint b1 AND 0x7F) = h"
    unfolding h_def b0_def b1_def
    by (simp only: first_byte_bits [OF op] header_byte_bits [OF lfr])
  have av0: "avail (events src) = b0 # b1 # (ext @ key @ masked @ rest)"
    using av by (simp add: hs masked_def)
  from recv_header_ok [OF ri av0] obtain src1 where
    s1: "recv_header (fb, src) = Some (Inr (), fb1, src1)"
      and av1: "avail (events src1) = ext @ key @ masked @ rest"
    unfolding hdr fb1_def by blast
  have ri1: "recv_into fb1 = read_into" and h1: "header fb1 = Some h"
    and l1: "length_fb fb1 = None" and m1: "mask_value_fb fb1 = None"
    using ri clr by (simp_all add: fb1_def)
  have h1': "header fb1 = Some (1, 0, 0, 0, op, 1, lf)" using h1 by (simp add: h_def)
  have lfa: "lf AND 0x7F = lf" using lfr by (rule and_7F_small)
  have "\<exists>src2. recv_length (fb1, src1) = Some (Inr (), fb2, src2)
               \<and> avail (events src2) = key @ masked @ rest"
  proof (cases "n < 126")
    case True
    then have "lf = int n" "ext = []" by (simp_all add: lf_def ext_def)
    with recv_length_short [OF h1', of src1] av1 lfa True show ?thesis
      by (simp add: fb2_def)
  next
    case False
    show ?thesis
    proof (cases "n < 2 ^ 16")
      case True
      with False have e: "lf = 126" "ext = big_endian 2 n" by (simp_all add: lf_def ext_def)
      from recv_length_16 [OF ri1 h1' _ _ True, of src1 "key @ masked @ rest"] e av1 lfa
      show ?thesis by (simp add: fb2_def)
    next
      case False
      with \<open>\<not> n < 126\<close> have e: "lf = 127" "ext = big_endian 8 n"
        by (simp_all add: lf_def ext_def)
      have "n < 2 ^ 64" using L unfolding n_def by (rule less_trans) simp
      from recv_length_64 [OF ri1 h1' _ _ this, of src1 "key @ masked @ rest"] e av1 lfa
      show ?thesis by (simp add: fb2_def)
    qed
  qed
  then obtain src2 where s2: "recv_length (fb1, src1) = Some (Inr (), fb2, src2)"
    and av2: "avail (events src2) = key @ masked @ rest" by blast
  have ri2: "recv_into fb2 = read_into" and h2: "header fb2 = Some h"
    and l2: "length_fb fb2 = Some n" and m2: "mask_value_fb fb2 = None"
    using ri1 h1 m1 by (simp_all add: fb2_def)
  have h2': "header fb2 = Some (1, 0, 0, 0, op, 1, lf)" using h2 by (simp add: h_def)
  from recv_mask_ok [OF ri2 h2' av2 k] obtain src3 where
    s3: "recv_mask (fb2, src2) = Some (Inr (), fb3, src3)"
      and av3: "avail (events src3) = masked @ rest"
    unfolding fb3_def by blast
  have ri3: "recv_into fb3 = read_into" and h3: "header fb3 = Some h"
    and l3: "length_fb fb3 = Some n" and m3: "mask_value_fb fb3 = Some key"
    using ri2 h2 l2 by (simp_all add: fb3_def)
  have h3': "header fb3 = Some (1, 0, 0, 0, op, 1, lf)" using h3 by (simp add: h_def)
  have lm: "n = length masked" by (simp add: masked_def n_def)
  from recv_strict_fb_delivers [OF ri3 av3 lm] obtain src4 where
    s4: "recv_strict_fb n (fb3, src3) = Some (Inr masked, fb3, src4)"
      and av4: "avail (events src4) = rest" by blast
  have um: "ABNF_mask bo key masked = Inr payload"
    unfolding masked_def using k by (rule unmask_masked)
  have v: "validate (ABNF_init 1 0 0 0 op 1 payload None None) (skip_utf8_validation fb3) = Inr ()"
    using op by (auto simp: validate_def ABNF_init_def truthy_def opcode_defs)
  have c: "clear fb3 = fb"
    using clr by (simp add: clear_def fb3_def fb2_def fb1_def)
  have "recv_frame bo (fb, src) = recv_frame bo (fb1, src1)"
    using clr(1) s1 h1 by (rule recv_frame_resume_header)
  also have "\<dots> = recv_frame bo (fb2, src2)"
    using h1 l1 s2 h2 l2 by (rule recv_frame_resume_length)
  also have "\<dots> = recv_frame bo (fb3, src3)"
    using h2 l2 m2 s3 h3 l3 m3 by (rule recv_frame_resume_mask)
  also have "\<dots> = Some (Inr (ABNF_init 1 0 0 0 op 1 payload None None), clear fb3, src4)"
    using h3' l3 m3 s4 um v by (rule recv_frame_payload)
  finally show ?thesis using av4 c by auto
qed

text \<open>
  Claim C1. For every data opcode (TEXT or BINARY), every byte payload (of a length below
  \<open>2^63\<close>, as every payload of the data model) and every 4-byte mask key: encoding the
  frame with \<open>fin = 1\<close> and masking enabled succeeds, and a fresh decoder that is fed the
  encoded bytes - in whatever segments the source delivers them, and whatever follows them
  in the stream - returns a frame whose \<open>fin\<close>, \<open>rsv1\<close>, \<open>rsv2\<close>, \<open>rsv3\<close>, \<open>opcode\<close> and
  (unmasked) payload are those of the encoded frame, leaves the rest of the stream unread,
  and is ready for the next frame.
\<close>

theorem decode_encode_roundtrip:
  assumes op: "op = OPCODE_TEXT \<or> op = OPCODE_BINARY"
    and L: "length payload < 2 ^ 63" and k: "length (gmk 4) = 4"
  shows "\<exists>wire f'.
           format gmk bo (create_frame payload op 1 True None None) = Inr (wire, f') \<and>
           (\<forall>src rest. avail (events src) = wire @ rest \<longrightarrow>
              (\<exists>frame src'.
                 recv_frame bo (frame_buffer_init read_into skip, src)
                   = Some (Inr frame, frame_buffer_init read_into skip, src') \<and>
                 fin frame = fin (create_frame payload op 1 True None None) \<and>
                 rsv1 frame = rsv1 (create_frame payload op 1 True None None) \<and>
                 rsv2 frame = rsv2 (create_frame payload op 1 True None None) \<and>
                 rsv3 frame = rsv3 (create_frame payload op 1 True None None) \<and>
                 opcode frame = opcode (create_frame payload op 1 True None None) \<and>
                 data frame = payload \<and>
                 avail (events src') = rest))"
proof -
  let ?f = "create_frame payload op 1 True None None"
  let ?fb = "frame_buffer_init read_into skip"
  let ?masked = "map (\<lambda>i. payload ! i XOR gmk 4 ! (i mod 4)) [0..<length payload]"
  let ?wire = "header_spec ?f @ gmk 4 @ ?masked"
  have ok: "header_fields_ok ?f" "data_msg_length_bytes ?f < 2 ^ 63" "mask_value ?f = 1"
    using op L by (auto simp: create_frame_def ABNF_init_def header_fields_ok_def opcode_defs)
  have d: "data ?f = payload" by (simp add: create_frame_def ABNF_init_def)
  from format_masked [where gmk = gmk, OF ok k, of bo]
  obtain f' where enc: "format gmk bo ?f = Inr (?wire, f')" unfolding d by blast
  have fb: "recv_into ?fb = read_into" "header ?fb = None" "length_fb ?fb = None"
    "mask_value_fb ?fb = None"
    by (simp_all add: frame_buffer_init_def)
  have dec: "\<forall>src rest. avail (events src) = ?wire @ rest \<longrightarrow>
              (\<exists>frame src'.
                 recv_frame bo (?fb, src) = Some (Inr frame, ?fb, src') \<and>
                 fin frame = fin ?f \<and> rsv1 frame = rsv1 ?f \<and> rsv2 frame = rsv2 ?f \<and>
                 rsv3 frame = rsv3 ?f \<and> opcode frame = opcode ?f \<and> data frame = payload \<and>
                 avail (events src') = rest)"
  proof (intro allI impI)
    fix src :: source and rest
    assume "avail (events src) = ?wire @ rest"
    then have "avail (events src) = header_spec ?f @ gmk 4 @ ?masked @ rest" by simp
    from recv_frame_of_masked_wire [OF fb op L k this, of bo]
    obtain src' where r: "recv_frame bo (?fb, src)
        = Some (Inr (ABNF_init 1 0 0 0 op 1 payload None None), ?fb, src')"
      and a: "avail (events src') = rest" by blast
    show "\<exists>frame src'.
                 recv_frame bo (?fb, src) = Some (Inr frame, ?fb, src') \<and>
                 fin frame = fin ?f \<and> rsv1 frame = rsv1 ?f \<and> rsv2 frame = rsv2 ?f \<and>
                 rsv3 frame = rsv3 ?f \<and> opcode frame = opcode ?f \<and> data frame = payload \<and>
                 avail (events src') = rest"
      by (rule exI [of _ "ABNF_init 1 0 0 0 op 1 payload None None"], rule exI [of _ src'])
         (simp add: r a create_frame_def ABNF_init_def)
  qed
  from enc dec show ?thesis by (intro exI conjI)
qed

text \<open>
  The theorem at the masked "Hello" frame of RFC 6455, delivered in two segments and
  followed by one more byte.
\<close>

theorem decode_encode_roundtrip_witness:
  "(OPCODE_TEXT = OPCODE_TEXT \<or> OPCODE_TEXT = OPCODE_BINARY) \<and>
   length [0x48, 0x65, 0x6C, 0x6C, 0x6F :: byte] < 2 ^ 63 \<and>
   length (rfc_key 4) = 4 \<and>
   (\<exists>frame src'.
      recv_frame Little
        (frame_buffer_init read_into False,
         \<lparr>events = [Data [0x81, 0x85, 0x37],
                    Data [0xfa, 0x21, 0x3d, 0x7f, 0x9f, 0x4d, 0x51, 0x58, 0x99]],
          calls = []\<rparr>)
        = Some (Inr frame, frame_buffer_init read_into False, src') \<and>
      fin frame = 1 \<and> opcode frame = OPCODE_TEXT \<and>
      data frame = [0x48, 0x65, 0x6C, 0x6C, 0x6F] \<and>
      avail (events src') = [0x99])"
proof -
  let ?p = "[0x48, 0x65, 0x6C, 0x6C, 0x6F] :: bytes"
  let ?f = "create_frame ?p OPCODE_TEXT 1 True None None"
  let ?W = "[0x81, 0x85, 0x37, 0xfa, 0x21, 0x3d, 0x7f, 0x9f, 0x4d, 0x51, 0x58] :: bytes"
  let ?src = "\<lparr>events = [Data [0x81, 0x85, 0x37],
                    Data [0xfa, 0x21, 0x3d, 0x7f, 0x9f, 0x4d, 0x51, 0x58, 0x99]],
          calls = []\<rparr>"
  have h: "OPCODE_TEXT = OPCODE_TEXT \<or> OPCODE_TEXT = OPCODE_BINARY"
    "length ?p < 2 ^ 63" "length (rfc_key 4) = 4"
    by (simp_all add: rfc_key_def)
  from decode_encode_roundtrip [where gmk = rfc_key, OF h, of Little False]
  obtain wire f' where enc: "format rfc_key Little ?f = Inr (wire, f')"
    and dec: "\<And>src rest. avail (events src) = wire @ rest \<Longrightarrow>
              (\<exists>frame src'.
                 recv_frame Little (frame_buffer_init read_into False, src)
                   = Some (Inr frame, frame_buffer_init read_into False, src') \<and>
                 fin frame = fin ?f \<and> rsv1 frame = rsv1 ?f \<and> rsv2 frame = rsv2 ?f \<and>
                 rsv3 frame = rsv3 ?f \<and> opcode frame = opcode ?f \<and> data frame = ?p \<and>
                 avail (events src') = rest)"
    by (elim exE conjE) blast
  have ok: "header_fields_ok ?f" "data_msg_length_bytes ?f < 2 ^ 63" "mask_value ?f = 1"
    by (simp_all add: create_frame_def ABNF_init_def header_fields_ok_def opcode_defs)
  from format_masked [where gmk = rfc_key, OF ok h(3), of Little] enc
  have "wire = ?W"
    by (simp add: create_frame_def ABNF_init_def header_spec_def opcode_defs rfc_key_def upt_rec)
  then have "avail (events ?src) = wire @ [0x99]" by simp
  from dec [OF this] obtain frame src' where
    "recv_frame Little (frame_buffer_init read_into False, ?src)
       = Some (Inr frame, frame_buffer_init read_into False, src')"
    "fin frame = fin ?f" "opcode frame = opcode ?f" "data frame = ?p"
    "avail (events src') = [0x99]"
    by blast
  then have "\<exists>frame src'.
      recv_frame Little (frame_buffer_init read_into False, ?src)
        = Some (Inr frame, frame_buffer_init read_into False, src') \<and>
      fin frame = 1 \<and> opcode frame = OPCODE_TEXT \<and> data frame = ?p \<and>
      avail (events src') = [0x99]"
    by (intro exI [of _ frame] exI [of _ src']) (simp add: create_frame_def ABNF_init_def)
  with h show ?thesis by (intro conjI)
qed

section \<open>Control frames\<close>

lemma recv_mask_none:
  assumes "header fb = Some (a, b, c, d, e, 0, bits)"
  shows "recv_mask (fb, src) = Some (Inr (), fb\<lparr>mask_value_fb := Some []\<rparr>, src)"
  using assms by (simp add: recv_mask_def has_mask_def truthy_def)

lemma recv_frame_payload_unmasked:
  assumes "header fb = Some (fin', r1, r2, r3, op', 0, bits)" "length_fb fb = Some L"
    "mask_value_fb fb = Some key"
    "recv_strict_fb L (fb, src) = Some (Inr payload, fb, src')"
    "validate (ABNF_init fin' r1 r2 r3 op' 0 payload None None) (skip_utf8_validation fb) = Inr ()"
  shows "recv_frame bo (fb, src)
           = Some (Inr (ABNF_init fin' r1 r2 r3 op' 0 payload None None), clear fb, src')"
  using assms
  by (simp add: recv_frame_def has_received_header_def has_received_length_def
        has_received_mask_def truthy_def Let_def clear_def)

lemma recv_frame_ping_126:
  "\<exists>src'. recv_frame Little
            (frame_buffer_init read_into False,
             \<lparr>events = [Data ([0x89, 0x7E, 0x00, 0x7E] @ replicate 126 0)], calls = []\<rparr>)
          = Some (Inr (received_frame OPCODE_PING 1 (replicate 126 0)),
                  frame_buffer_init read_into False, src')"
proof -
  let ?fb = "frame_buffer_init read_into False"
  let ?src = "\<lparr>events = [Data ([0x89, 0x7E, 0x00, 0x7E] @ replicate 126 0)], calls = []\<rparr>"
  define h where "h = (1::int, 0::int, 0::int, 0::int, 9::int, 0::int, 126::int)"
  define fb1 where "fb1 = ?fb\<lparr>header := Some h\<rparr>"
  define fb2 where "fb2 = fb1\<lparr>length_fb := Some 126\<rparr>"
  define fb3 where "fb3 = fb2\<lparr>mask_value_fb := Some []\<rparr>"
  have fb: "recv_into ?fb = read_into" "header ?fb = None" "length_fb ?fb = None"
    "mask_value_fb ?fb = None"
    by (simp_all add: frame_buffer_init_def)
  have av0: "avail (events ?src) = 0x89 # 0x7E # ([0x00, 0x7E] @ replicate 126 0)" by simp
  have hdr: "(drop_bit 7 (uint (0x89::byte)) AND 1, drop_bit 6 (uint (0x89::byte)) AND 1,
              drop_bit 5 (uint (0x89::byte)) AND 1, drop_bit 4 (uint (0x89::byte)) AND 1,
              uint (0x89::byte) AND 0xF, drop_bit 7 (uint (0x7E::byte)) AND 1,
              uint (0x7E::byte) AND 0x7F) = h"
    by (simp add: h_def)
  from recv_header_ok [OF fb(1) av0] obtain src1 where
    s1: "recv_header (?fb, ?src) = Some (Inr (), fb1, src1)"
      and av1: "avail (events src1) = [0x00, 0x7E] @ replicate 126 0"
    unfolding hdr fb1_def by blast
  have ri1: "recv_into fb1 = read_into" and h1: "header fb1 = Some h"
    and l1: "length_fb fb1 = None" and m1: "mask_value_fb fb1 = None"
    using fb by (simp_all add: fb1_def)
  have h1': "header fb1 = Some (1, 0, 0, 0, 9, 0, 126)" using h1 by (simp add: h_def)
  have be: "big_endian 2 126 = [0x00, 0x7E]" by (simp add: big_endian_def upt_rec)
  from recv_length_16 [OF ri1 h1', of src1 126 "replicate 126 0"] av1 be
  obtain src2 where s2: "recv_length (fb1, src1) = Some (Inr (), fb2, src2)"
    and av2: "avail (events src2) = replicate 126 0"
    unfolding fb2_def by auto
  have ri2: "recv_into fb2 = read_into" and h2: "header fb2 = Some h"
    and l2: "length_fb fb2 = Some 126" and m2: "mask_value_fb fb2 = None"
    using ri1 h1 m1 by (simp_all add: fb2_def)
  have h2': "header fb2 = Some (1, 0, 0, 0, 9, 0, 126)" using h2 by (simp add: h_def)
  have s3: "recv_mask (fb2, src2) = Some (Inr (), fb3, src2)"
    unfolding fb3_def using h2' by (rule recv_mask_none)
  have ri3: "recv_into fb3 = read_into" and h3: "header fb3 = Some h"
    and l3: "length_fb fb3 = Some 126" and m3: "mask_value_fb fb3 = Some []"
    using ri2 h2 l2 by (simp_all add: fb3_def)
  have h3': "header fb3 = Some (1, 0, 0, 0, 9, 0, 126)" using h3 by (simp add: h_def)
  have "avail (events src2) = replicate 126 0 @ []" using av2 by simp
  from recv_strict_fb_delivers [OF ri3 this] obtain src4 where
    s4: "recv_strict_fb 126 (fb3, src2) = Some (Inr (replicate 126 0), fb3, src4)"
    by auto
  have v: "validate (ABNF_init 1 0 0 0 9 0 (replicate 126 0) None None) (skip_utf8_validation fb3)
             = Inr ()"
    by (simp add: validate_def ABNF_init_def truthy_def opcode_defs)
  have c: "clear fb3 = ?fb"
    by (simp add: clear_def fb3_def fb2_def fb1_def frame_buffer_init_def)
  have "recv_frame Little (?fb, ?src) = recv_frame Little (fb1, src1)"
    using fb(2) s1 h1 by (rule recv_frame_resume_header)
  also have "\<dots> = recv_frame Little (fb2, src2)"
    using h1 l1 s2 h2 l2 by (rule recv_frame_resume_length)
  also have "\<dots> = recv_frame Little (fb3, src2)"
    using h2 l2 m2 s3 h3 l3 m3 by (rule recv_frame_resume_mask)
  also have "\<dots> = Some (Inr (ABNF_init 1 0 0 0 9 0 (replicate 126 0) None None), clear fb3, src4)"
    using h3' l3 m3 s4 v by (rule recv_frame_payload_unmasked)
  finally show ?thesis
    unfolding c by (auto simp: received_frame_def OPCODE_PING_def)
qed

text \<open>
  Claim C5. Every decoded control frame with \<open>fin = 0\<close> and every control frame with a
  payload of more than 125 bytes should be rejected by \<open>validate\<close> with a protocol error.
  The code checks \<open>fin\<close> only for PING and the length only for CLOSE: a PING and a PONG
  with 126 payload bytes pass validation, and so do a PONG and a CLOSE with \<open>fin = 0\<close>;
  the decoder returns the PING frame that the bytes \<open>89 7E 00 7E\<close> and 126 zero bytes
  encode.
\<close>

theorem control_frames_accepted:
  "validate (received_frame OPCODE_PING 1 (replicate 126 0)) False = Inr () \<and>
   validate (received_frame OPCODE_PONG 1 (replicate 126 0)) False = Inr () \<and>
   validate (received_frame OPCODE_PONG 0 []) False = Inr () \<and>
   validate (received_frame OPCODE_CLOSE 0 []) False = Inr () \<and>
   validate (received_frame OPCODE_CLOSE 0 [0x03, 0xE8]) False = Inr () \<and>
   (\<exists>src'. recv_frame Little
            (frame_buffer_init read_into False,
             \<lparr>events = [Data ([0x89, 0x7E, 0x00, 0x7E] @ replicate 126 0)], calls = []\<rparr>)
          = Some (Inr (received_frame OPCODE_PING 1 (replicate 126 0)),
                  frame_buffer_init read_into False, src'))"
proof -
  have "validate (received_frame OPCODE_PING 1 (replicate 126 0)) False = Inr ()"
    "validate (received_frame OPCODE_PONG 1 (replicate 126 0)) False = Inr ()"
    "validate (received_frame OPCODE_PONG 0 []) False = Inr ()"
    "validate (received_frame OPCODE_CLOSE 0 []) False = Inr ()"
    "validate (received_frame OPCODE_CLOSE 0 [0x03, 0xE8]) False = Inr ()"
    by (simp_all add: received_frame_def ABNF_init_def validate_def truthy_def opcode_defs
          is_valid_close_status_iff valid_close_codes_spec_def)
  with recv_frame_ping_126 show ?thesis by (intro conjI)
qed

end
